theory Spec2Isabelle
  imports Main "HOL-Library.Word"
begin

section \<open>Faults and blocking\<close>

text \<open>
  The C code has no error values of its own inside the traversal engine: what can go
  wrong is a failed \<^verbatim>\<open>assert\<close>, a dereference of \<^verbatim>\<open>NULL\<close>, an access to freed
  memory or a read outside a string. Each of them is a value of \<open>halt\<close>, and so is a
  thread that cannot go on because it blocks (\<^verbatim>\<open>sem_wait\<close> on an empty queue,
  \<^verbatim>\<open>flagman_wait\<close> on a counter that is not zero, \<^verbatim>\<open>pthread_join\<close> on a running
  thread). Every operation returns \<open>halt + result\<close>.
\<close>

datatype halt = Blocked | AssertFail | NullDeref | UseAfterFree | OutOfBounds

type_synonym addr = nat

section \<open>The message queue (generic/message.c)\<close>

text \<open>
  \<^verbatim>\<open>struct _node { size_t priority; message *msg; node *next; }\<close> and
  \<^verbatim>\<open>struct _queue { sem_t length; node *head; node *tail; pthread_mutex_t lock; }\<close>.

  The nodes reachable from \<^verbatim>\<open>q->head\<close> through \<^verbatim>\<open>next\<close> are kept as the list
  \<open>q_list\<close>, in link order, each with the address \<^verbatim>\<open>malloc\<close> gave it: \<^verbatim>\<open>q->head\<close> is
  the address of the first element (\<^verbatim>\<open>NULL\<close> for the empty list) and \<^verbatim>\<open>next\<close> of an
  element is its successor (\<^verbatim>\<open>NULL\<close> for the last). \<^verbatim>\<open>q->tail\<close> is kept as an
  address of its own, because the code does not keep it at the last node:
  \<^verbatim>\<open>queue_put\<close> never writes it and \<^verbatim>\<open>queue_get\<close> writes it only when the list
  becomes empty. \<^verbatim>\<open>malloc\<close> is a bump allocator (\<open>q_alloc\<close>), which never hands out
  an address twice; with an allocator that hands out the address of a freed node again, a
  new node can have the address that a stale \<^verbatim>\<open>q->tail\<close> holds, and an insertion
  behind it can then stop at another node. A message pointer is an option, \<open>None\<close> for \<^verbatim>\<open>NULL\<close>. Each
  operation is one atomic step: the list is changed under the mutex and the semaphore is
  posted right after.
\<close>

record 'm node =
  priority :: nat
  msg :: "'m option"

record 'm queue =
  q_length :: nat
  q_list :: "(addr \<times> 'm node) list"
  q_tail :: "addr option"
  q_alloc :: addr

definition queue_new :: "'m queue" where
  "queue_new = \<lparr>q_length = 0, q_list = [], q_tail = None, q_alloc = 0\<rparr>"

text \<open>
  The loop of \<^verbatim>\<open>queue_put\<close> and the splice after it:
  \<^verbatim>\<open>while (p != q->tail && p->priority > priority) { if (p->next == NULL) break; p = p->next; }\<close>
  followed by \<^verbatim>\<open>next = p->next; p->next = new_node; new_node->next = next\<close>. The first
  argument is \<^verbatim>\<open>q->tail\<close>, the list argument starts at \<open>p\<close>.
\<close>

fun put_after :: "addr option \<Rightarrow> nat \<Rightarrow> (addr \<times> 'm node) \<Rightarrow> (addr \<times> 'm node) list
    \<Rightarrow> (addr \<times> 'm node) list" where
  "put_after t pr new [] = [new]"
| "put_after t pr new ((a, n) # rest) =
     (if Some a \<noteq> t \<and> priority n > pr \<and> rest \<noteq> []
      then (a, n) # put_after t pr new rest
      else (a, n) # new # rest)"

definition queue_put :: "'m queue \<Rightarrow> 'm option \<Rightarrow> nat \<Rightarrow> halt + 'm queue" where
  "queue_put q m pr =
     (let a = q_alloc q; new_node = (a, \<lparr>priority = pr, msg = m\<rparr>) in
      if q_list q = [] \<and> q_tail q = None
      then Inr (q\<lparr>q_list := [new_node], q_tail := Some a,
                  q_alloc := Suc a, q_length := Suc (q_length q)\<rparr>)
      else if q_list q = [] then Inl NullDeref
      else Inr (q\<lparr>q_list := put_after (q_tail q) pr new_node (q_list q),
                  q_alloc := Suc a, q_length := Suc (q_length q)\<rparr>))"

text \<open>
  Modelled from the spec: \<^verbatim>\<open>message.h\<close> is not among the sources, so the two boundary
  priorities are the extremes of \<^verbatim>\<open>size_t\<close> (``force-head (logical priority = +infinity)
  and force-tail (logical priority = -infinity)'').
\<close>

definition QUEUE_PRIORITY_MAX :: nat where
  "QUEUE_PRIORITY_MAX = 2 ^ 64 - 1"

definition QUEUE_PRIORITY_MIN :: nat where
  "QUEUE_PRIORITY_MIN = 0"

definition queue_put_head :: "'m queue \<Rightarrow> 'm option \<Rightarrow> halt + 'm queue" where
  "queue_put_head q m =
     (let a = q_alloc q; new_node = (a, \<lparr>priority = QUEUE_PRIORITY_MAX, msg = m\<rparr>) in
      if q_list q = [] \<and> q_tail q = None
      then Inr (q\<lparr>q_list := [new_node], q_tail := Some a,
                  q_alloc := Suc a, q_length := Suc (q_length q)\<rparr>)
      else Inr (q\<lparr>q_list := new_node # q_list q,
                  q_alloc := Suc a, q_length := Suc (q_length q)\<rparr>))"

text \<open>
  \<^verbatim>\<open>q->tail->next = new_node; q->tail = new_node\<close>: when \<^verbatim>\<open>q->tail\<close> is a node of
  the list, the nodes behind it are unlinked; when it is \<^verbatim>\<open>NULL\<close> or the address of a
  node that \<^verbatim>\<open>queue_get\<close> has freed, the write is a fault.
\<close>

fun link_after :: "addr \<Rightarrow> (addr \<times> 'm node) \<Rightarrow> (addr \<times> 'm node) list
    \<Rightarrow> (addr \<times> 'm node) list option" where
  "link_after t new [] = None"
| "link_after t new ((a, n) # rest) =
     (if a = t then Some [(a, n), new]
      else map_option (\<lambda>l. (a, n) # l) (link_after t new rest))"

definition queue_put_tail :: "'m queue \<Rightarrow> 'm option \<Rightarrow> halt + 'm queue" where
  "queue_put_tail q m =
     (let a = q_alloc q; new_node = (a, \<lparr>priority = QUEUE_PRIORITY_MIN, msg = m\<rparr>) in
      if q_list q = [] \<and> q_tail q = None
      then Inr (q\<lparr>q_list := [new_node], q_tail := Some a,
                  q_alloc := Suc a, q_length := Suc (q_length q)\<rparr>)
      else (case q_tail q of
              None \<Rightarrow> Inl NullDeref
            | Some t \<Rightarrow>
                (case link_after t new_node (q_list q) of
                   None \<Rightarrow> Inl UseAfterFree
                 | Some l \<Rightarrow> Inr (q\<lparr>q_list := l, q_tail := Some a,
                                     q_alloc := Suc a, q_length := Suc (q_length q)\<rparr>))))"

text \<open>
  \<^verbatim>\<open>queue_get\<close> waits on the semaphore, then takes the head node's message. The tail
  pointer is reset only together with the head, when the last node leaves.
\<close>

definition queue_get :: "'m queue \<Rightarrow> halt + ('m option \<times> 'm queue)" where
  "queue_get q =
     (if q_length q = 0 then Inl Blocked
      else (case q_list q of
              [] \<Rightarrow> Inl NullDeref
            | (a, n) # rest \<Rightarrow>
                if rest \<noteq> []
                then Inr (msg n, q\<lparr>q_length := q_length q - 1, q_list := rest\<rparr>)
                else Inr (msg n, q\<lparr>q_length := q_length q - 1, q_list := [],
                                   q_tail := None\<rparr>)))"

text \<open>Sequencing of fallible steps.\<close>

definition bind_halt :: "halt + 'a \<Rightarrow> ('a \<Rightarrow> halt + 'b) \<Rightarrow> halt + 'b" where
  "bind_halt r f = (case r of Inl e \<Rightarrow> Inl e | Inr x \<Rightarrow> f x)"

section \<open>Shared ignore-scope handles (ff.c)\<close>

text \<open>
  \<^verbatim>\<open>struct _shared_ptr { git_repository *ptr; int *refcnt; }\<close>. A repository object
  of libgit2 is known by its identity (a number, in the order in which the objects were
  opened) and the path it was opened at. The counters live in \<open>cells\<close>, a store from
  addresses to 32-bit integers; \<^verbatim>\<open>malloc\<close> takes the next address and \<^verbatim>\<open>free\<close>
  removes the cell, so a later access through the stale address is a fault.
  \<open>git_freed\<close> lists the arguments of the calls of \<^verbatim>\<open>git_repository_free\<close>, oldest
  first; libgit2 does nothing when the argument is \<^verbatim>\<open>NULL\<close>.
\<close>

type_synonym git_repository = "nat \<times> string"

record shared_ptr =
  ptr :: "git_repository option"
  refcnt :: "addr option"

record heap =
  cells :: "addr \<Rightarrow> 32 word option"
  next_cell :: addr
  git_next :: nat
  git_freed :: "git_repository option list"

definition make_shared :: "git_repository option \<Rightarrow> heap \<Rightarrow> shared_ptr \<times> heap" where
  "make_shared rp h =
     (\<lparr>ptr = rp, refcnt = Some (next_cell h)\<rparr>,
      h\<lparr>cells := (cells h)(next_cell h \<mapsto> 1), next_cell := Suc (next_cell h)\<rparr>)"

definition free_shared :: "shared_ptr \<Rightarrow> heap \<Rightarrow> halt + heap" where
  "free_shared s h =
     (case refcnt s of
        None \<Rightarrow> Inl AssertFail
      | Some a \<Rightarrow>
          (case cells h a of
             None \<Rightarrow> Inl UseAfterFree
           | Some c \<Rightarrow>
               if c - 1 = 0
               then Inr (h\<lparr>cells := (cells h)(a := None),
                           git_freed := git_freed h @ [ptr s]\<rparr>)
               else Inr (h\<lparr>cells := (cells h)(a \<mapsto> c - 1)\<rparr>)))"

definition make_shared_copy :: "shared_ptr \<Rightarrow> heap \<Rightarrow> halt + (shared_ptr \<times> heap)" where
  "make_shared_copy s h =
     (case refcnt s of
        None \<Rightarrow> Inl NullDeref
      | Some a \<Rightarrow>
          (case cells h a of
             None \<Rightarrow> Inl UseAfterFree
           | Some c \<Rightarrow> Inr (s, h\<lparr>cells := (cells h)(a \<mapsto> c + 1)\<rparr>)))"

text \<open>
  \<^verbatim>\<open>message_body\<close>: every caller passes a string that is not \<^verbatim>\<open>NULL\<close>, so
  \<open>str\<close> is a plain string. \<^verbatim>\<open>message_body_free\<close> frees the string and the body and
  releases the handle. The \<^verbatim>\<open>message\<close> container only pairs the body with this
  function, so a message is its body.
\<close>

record message_body =
  depth :: int
  len :: nat
  str :: string
  repo :: shared_ptr

definition message_body_new :: "int \<Rightarrow> nat \<Rightarrow> string \<Rightarrow> shared_ptr \<Rightarrow> message_body" where
  "message_body_new d l s r = \<lparr>depth = d, len = l, str = s, repo = r\<rparr>"

definition message_body_free :: "message_body \<Rightarrow> heap \<Rightarrow> halt + heap" where
  "message_body_free b h = free_shared (repo b) h"

section \<open>Options (options.c)\<close>

datatype mode = NONE | REGEX | GLOB

datatype d_type =
  DT_UNKNOWN | DT_FIFO | DT_CHR | DT_DIR | DT_BLK | DT_REG | DT_LNK | DT_SOCK

text \<open>
  Modelled from the spec: \<^verbatim>\<open>regex_compile\<close> and the PCRE library are not among the
  sources. The spec says the regex is ``compiled once with case-fold flag derived from
  \<^verbatim>\<open>--ignore-case\<close>'', so a compiled regex is the pattern with that flag;
  \<^verbatim>\<open>pcre_study\<close> with \<^verbatim>\<open>PCRE_STUDY_JIT_COMPILE\<close> yields the program that
  \<^verbatim>\<open>pcre_jit_exec\<close> runs, again the pattern with its flag.
\<close>

record pcre =
  re_pattern :: string
  re_caseless :: bool

definition regex_compile :: "string \<Rightarrow> bool \<Rightarrow> pcre" where
  "regex_compile pattern caseless = \<lparr>re_pattern = pattern, re_caseless = caseless\<rparr>"

text \<open>\<^verbatim>\<open>opt->match\<close> is a union of the compiled regex and the glob pattern.\<close>

datatype match = Unset | Re pcre | Pattern string

text \<open>
  \<^verbatim>\<open>options.h\<close> is not among the sources; the fields are the ones the code reads and
  writes. \<open>roots\<close> stands for \<^verbatim>\<open>argv[opt->optind .. argc)\<close>. The queue and the
  flagman, which the C structure points to, are part of the shared state below.
\<close>

record options =
  mode :: mode
  only_type :: d_type
  skip_hidden :: bool
  max_depth :: int
  colorize :: bool
  icase :: bool
  no_ignore :: bool
  nthreads :: int
  deterministic :: bool
  match :: match
  roots :: "string list"

datatype parse_result = OPTIONS_SUCCESS | OPTIONS_FAILURE | OPTIONS_HELP

text \<open>What \<^verbatim>\<open>print_usage\<close> and \<^verbatim>\<open>perror\<close> write to the standard error stream.\<close>

datatype err_out = Usage "string option" | Perror string

section \<open>The world outside the program\<close>

text \<open>
  The file system, libgit2, PCRE, \<^verbatim>\<open>fnmatch\<close>, \<^verbatim>\<open>strtoul\<close> and the colour table are
  parameters. \<open>fs_dir p\<close> is what \<^verbatim>\<open>opendir\<close> and the \<^verbatim>\<open>readdir\<close> loop give for the
  path \<open>p\<close> (\<open>None\<close> when it cannot be opened); \<open>git_repo_at\<close> tells whether
  \<^verbatim>\<open>git_repository_open\<close> succeeds at a path and \<open>git_repo_above\<close> which repository
  \<^verbatim>\<open>git_repository_open_ext\<close> discovers from it; \<open>git_ignore\<close> is
  \<^verbatim>\<open>git_ignore_path_is_ignored\<close>; \<open>pcre_jit_exec\<close> is the return value of the call
  for a studied regex and a subject; \<open>fnmatch\<close> the one for a pattern, a name and the
  flags; \<open>strtoul\<close> the converted value with whether the call set \<^verbatim>\<open>errno\<close> to
  \<^verbatim>\<open>ERANGE\<close>.
\<close>

record dirent =
  d_name :: string
  d_type :: d_type

record world =
  fs_dir :: "string \<Rightarrow> dirent list option"
  git_repo_at :: "string \<Rightarrow> bool"
  git_repo_above :: "string \<Rightarrow> string option"
  git_ignore :: "git_repository \<Rightarrow> string \<Rightarrow> bool"
  pcre_jit_exec :: "pcre \<Rightarrow> string \<Rightarrow> int"
  fnmatch :: "string \<Rightarrow> string \<Rightarrow> int \<Rightarrow> int"
  strtoul :: "string \<Rightarrow> nat \<times> bool"
  dircolor :: "string \<Rightarrow> string"
  DIRCOLOR_DIR :: string
  DIRCOLOR_RESET :: string

section \<open>Parsing the command line (options.c)\<close>

text \<open>
  \<^verbatim>\<open>getopt_long\<close> is the C library's: the model takes what its successive calls return
  (the option character with \<^verbatim>\<open>optarg\<close>, \<^verbatim>\<open>?\<close> for an option it does not know) and
  the arguments it leaves from \<^verbatim>\<open>optind\<close> on. \<open>p_errno\<close> is \<^verbatim>\<open>errno\<close>, which
  \<^verbatim>\<open>strtoul\<close> sets on overflow and nothing resets; \<open>p_stderr\<close> is what has been
  written to the standard error stream.
\<close>

record pstate =
  p_opt :: options
  p_errno :: int
  p_stderr :: "err_out list"

definition ERANGE :: int where
  "ERANGE = 34"

definition print_usage :: "string option \<Rightarrow> pstate \<Rightarrow> pstate" where
  "print_usage m st = st\<lparr>p_stderr := p_stderr st @ [Usage m]\<rparr>"

text \<open>\<^verbatim>\<open>(long)strtoul(optarg, NULL, 0)\<close>: the unsigned result read as a signed 64-bit value.\<close>

definition long_strtoul :: "world \<Rightarrow> string \<Rightarrow> pstate \<Rightarrow> int \<times> pstate" where
  "long_strtoul w a st =
     (case strtoul w a of
        (v, erange) \<Rightarrow>
          (sint (word_of_nat v :: 64 word), if erange then st\<lparr>p_errno := ERANGE\<rparr> else st))"

text \<open>The inner \<^verbatim>\<open>switch (optarg[0])\<close> of the case \<^verbatim>\<open>'t'\<close>.\<close>

definition type_of_char :: "char \<Rightarrow> d_type option" where
  "type_of_char x =
     (if x = CHR ''b'' then Some DT_BLK
      else if x = CHR ''c'' then Some DT_CHR
      else if x = CHR ''d'' then Some DT_DIR
      else if x = CHR ''n'' then Some DT_FIFO
      else if x = CHR ''l'' then Some DT_LNK
      else if x = CHR ''f'' then Some DT_REG
      else if x = CHR ''s'' then Some DT_SOCK
      else None)"

text \<open>
  The body of the \<^verbatim>\<open>while\<close> loop for one option: \<open>Some r\<close> in the result is
  \<^verbatim>\<open>return r\<close>, \<open>None\<close> is \<^verbatim>\<open>break\<close> out of the switch, on to the next option.
\<close>

definition getopt_case :: "world \<Rightarrow> char \<Rightarrow> string option \<Rightarrow> pstate
    \<Rightarrow> halt + (parse_result option \<times> pstate)" where
  "getopt_case w c optarg st =
     (if c = CHR ''d'' then
        (case optarg of
           None \<Rightarrow> Inl AssertFail
         | Some a \<Rightarrow>
             (case long_strtoul w a st of
                (v, st1) \<Rightarrow>
                  (let st2 = st1\<lparr>p_opt := (p_opt st1)\<lparr>max_depth := v\<rparr>\<rparr> in
                   if v = 0 \<or> p_errno st2 = ERANGE
                   then Inr (Some OPTIONS_FAILURE,
                             print_usage (Some ''Invalid argument for --depth'') st2)
                   else Inr (None, st2))))
      else if c = CHR ''t'' then
        (case optarg of
           None \<Rightarrow> Inl AssertFail
         | Some a \<Rightarrow>
             (case a of
                [] \<Rightarrow> Inl AssertFail
              | x # _ \<Rightarrow>
                  (case type_of_char x of
                     Some t \<Rightarrow> Inr (None, st\<lparr>p_opt := (p_opt st)\<lparr>only_type := t\<rparr>\<rparr>)
                   | None \<Rightarrow> Inr (Some OPTIONS_FAILURE,
                                   print_usage (Some ''Invalid argument for --type'') st))))
      else if c = CHR ''g'' then Inr (None, st\<lparr>p_opt := (p_opt st)\<lparr>mode := GLOB\<rparr>\<rparr>)
      else if c = CHR ''H'' then Inr (None, st\<lparr>p_opt := (p_opt st)\<lparr>skip_hidden := False\<rparr>\<rparr>)
      else if c = CHR ''I'' then Inr (None, st\<lparr>p_opt := (p_opt st)\<lparr>no_ignore := True\<rparr>\<rparr>)
      else if c = CHR ''i'' then Inr (None, st\<lparr>p_opt := (p_opt st)\<lparr>icase := True\<rparr>\<rparr>)
      else if c = CHR ''j'' then
        (case optarg of
           None \<Rightarrow> Inl AssertFail
         | Some a \<Rightarrow>
             (case long_strtoul w a st of
                (v, st1) \<Rightarrow>
                  (let st2 = st1\<lparr>p_opt := (p_opt st1)\<lparr>nthreads := v\<rparr>\<rparr> in
                   if v = 0 \<or> p_errno st2 = ERANGE
                   then Inr (Some OPTIONS_FAILURE,
                             print_usage (Some ''Invalid argument for --nthreads'') st2)
                   else Inr (None, st2))))
      else if c = CHR ''D'' then Inr (None, st\<lparr>p_opt := (p_opt st)\<lparr>deterministic := True\<rparr>\<rparr>)
      else if c = CHR ''h'' then Inr (Some OPTIONS_HELP, print_usage None st)
      else Inr (Some OPTIONS_FAILURE, print_usage None st))"

fun getopt_loop :: "world \<Rightarrow> (char \<times> string option) list \<Rightarrow> pstate
    \<Rightarrow> halt + (parse_result option \<times> pstate)" where
  "getopt_loop w [] st = Inr (None, st)"
| "getopt_loop w ((c, optarg) # rest) st =
     bind_halt (getopt_case w c optarg st)
       (\<lambda>(r, st1). case r of Some res \<Rightarrow> Inr (Some res, st1) | None \<Rightarrow> getopt_loop w rest st1)"

text \<open>
  \<^verbatim>\<open>switch (argc - optind)\<close>: the pattern, the arguments behind it and the options
  with the mode set.
\<close>

definition scan_pattern :: "string list \<Rightarrow> options \<Rightarrow> string \<times> string list \<times> options" where
  "scan_pattern args opt =
     (case args of
        [] \<Rightarrow> ([], [], opt\<lparr>mode := NONE\<rparr>)
      | pattern # rest \<Rightarrow>
          (pattern, rest,
           if length pattern > 0 \<and> mode opt = NONE then opt\<lparr>mode := REGEX\<rparr> else opt))"

text \<open>\<^verbatim>\<open>while (len > 1 && argv[arg][len - 1] == '/') argv[arg][--len] = 0\<close>.\<close>

function truncate_slashes :: "string \<Rightarrow> string" where
  "truncate_slashes s =
     (if length s > 1 \<and> last s = CHR ''/'' then truncate_slashes (butlast s) else s)"
  by pat_completeness auto
termination
  by (relation "measure length") auto

text \<open>
  The loop over the root directories: the first one that cannot be opened ends the
  parse; the others lose their trailing slashes.
\<close>

fun check_roots :: "world \<Rightarrow> string list \<Rightarrow> pstate
    \<Rightarrow> parse_result option \<times> string list \<times> pstate" where
  "check_roots w [] st = (None, [], st)"
| "check_roots w (a # rest) st =
     (if fs_dir w a = None
      then (Some OPTIONS_FAILURE, a # rest,
            print_usage None (st\<lparr>p_stderr := p_stderr st @ [Perror a]\<rparr>))
      else (case check_roots w rest st of
              (r, rs, st1) \<Rightarrow> (r, truncate_slashes a # rs, st1)))"

text \<open>The last \<^verbatim>\<open>switch (opt->mode)\<close>, which sets up the matcher.\<close>

definition set_matcher :: "string \<Rightarrow> options \<Rightarrow> options" where
  "set_matcher pattern opt =
     (case mode opt of
        REGEX \<Rightarrow> opt\<lparr>match := Re (regex_compile pattern (icase opt))\<rparr>
      | GLOB \<Rightarrow> opt\<lparr>match := Pattern pattern\<rparr>
      | NONE \<Rightarrow> opt)"

definition parse_options :: "world \<Rightarrow> (char \<times> string option) list \<Rightarrow> string list \<Rightarrow> pstate
    \<Rightarrow> halt + (parse_result \<times> pstate)" where
  "parse_options w getopts args st =
     bind_halt (getopt_loop w getopts st)
       (\<lambda>(r, st1).
          case r of
            Some res \<Rightarrow> Inr (res, st1)
          | None \<Rightarrow>
              (case scan_pattern args (p_opt st1) of
                 (pattern, rest, opt1) \<Rightarrow>
                   (case check_roots w rest (st1\<lparr>p_opt := opt1\<rparr>) of
                      (Some res, rs, st2) \<Rightarrow> Inr (res, st2)
                    | (None, rs, st2) \<Rightarrow>
                        Inr (OPTIONS_SUCCESS,
                             st2\<lparr>p_opt := set_matcher pattern ((p_opt st2)\<lparr>roots := rs\<rparr>)\<rparr>))))"

text \<open>
  The defaults that \<^verbatim>\<open>main\<close> writes into the uninitialised structure before it
  parses: \<open>tty\<close> is \<^verbatim>\<open>isatty(fileno(stdout))\<close>, \<open>nprocs\<close> is \<^verbatim>\<open>get_nprocs()\<close>.
\<close>

definition main_defaults :: "bool \<Rightarrow> int \<Rightarrow> options \<Rightarrow> options" where
  "main_defaults tty nprocs opt =
     opt\<lparr>mode := NONE, only_type := DT_UNKNOWN, skip_hidden := True, max_depth := - 1,
         colorize := tty, icase := False, no_ignore := False, nthreads := nprocs\<rparr>"

section \<open>The shared state of a run\<close>

text \<open>
  What the threads share: the queue \<^verbatim>\<open>opt->q\<close>, the flagman \<^verbatim>\<open>opt->flagman_lock\<close>,
  the heap of the handles and the standard output, one element per line written.
  \<open>events\<close> is a history of the calls to the queue and the flagman, oldest first; the
  code does not read it.
\<close>

datatype event =
  EvAcquire | EvRelease | EvWait
  | EvPutHead string | EvPut string nat | EvPutTail | EvGet "string option"

record state =
  opt_q :: "message_body queue"
  flagman_lock :: int
  mem :: heap
  stdout :: "string list"
  events :: "event list"

text \<open>
  Modelled from the spec: \<^verbatim>\<open>flagman.c\<close> is not among the sources. The spec gives a
  ``counter with operations acquire (increment), release (decrement), wait (block until
  zero)''; \<^verbatim>\<open>flagman_new\<close> starts it at zero.
\<close>

definition flagman_new :: int where
  "flagman_new = 0"

definition flagman_acquire :: "state \<Rightarrow> state" where
  "flagman_acquire s = s\<lparr>flagman_lock := flagman_lock s + 1, events := events s @ [EvAcquire]\<rparr>"

definition flagman_release :: "state \<Rightarrow> state" where
  "flagman_release s = s\<lparr>flagman_lock := flagman_lock s - 1, events := events s @ [EvRelease]\<rparr>"

definition flagman_wait :: "state \<Rightarrow> halt + state" where
  "flagman_wait s =
     (if flagman_lock s = 0 then Inr (s\<lparr>events := events s @ [EvWait]\<rparr>) else Inl Blocked)"

text \<open>libgit2: a successful open makes a new repository object.\<close>

definition git_repository_open :: "world \<Rightarrow> string \<Rightarrow> heap \<Rightarrow> git_repository option \<times> heap" where
  "git_repository_open w path h =
     (if git_repo_at w path
      then (Some (git_next h, path), h\<lparr>git_next := Suc (git_next h)\<rparr>)
      else (None, h))"

definition git_repository_open_ext :: "world \<Rightarrow> string \<Rightarrow> heap \<Rightarrow> git_repository option \<times> heap" where
  "git_repository_open_ext w path h =
     (case git_repo_above w path of
        Some root \<Rightarrow> (Some (git_next h, root), h\<lparr>git_next := Suc (git_next h)\<rparr>)
      | None \<Rightarrow> (None, h))"

section \<open>The walker (ff.c)\<close>

definition process_match :: "world \<Rightarrow> string \<Rightarrow> string \<Rightarrow> string \<Rightarrow> options \<Rightarrow> state \<Rightarrow> state" where
  "process_match w real_path dir_name base_name opt s =
     s\<lparr>stdout := stdout s @
          [if colorize opt
           then DIRCOLOR_DIR w @ dir_name @ ''/'' @ DIRCOLOR_RESET w @
                dircolor w real_path @ base_name @ DIRCOLOR_RESET w
           else real_path]\<rparr>"

text \<open>
  The thread-local matcher state of a worker, set up before its loop. \<^verbatim>\<open>re\<close> stays
  \<^verbatim>\<open>NULL\<close> in the code; the program that \<^verbatim>\<open>pcre_jit_exec\<close> runs is in \<^verbatim>\<open>extra\<close>.
  \<^verbatim>\<open>FNM_CASEFOLD\<close> is the C library's.
\<close>

record tls =
  re :: "pcre option"
  extra :: "pcre option"
  glob_pattern :: "string option"
  glob_flags :: int

definition FNM_CASEFOLD :: int where
  "FNM_CASEFOLD = 16"

definition worker_tls :: "options \<Rightarrow> halt + tls" where
  "worker_tls opt =
     (case mode opt of
        REGEX \<Rightarrow>
          (case match opt of
             Re r \<Rightarrow> Inr \<lparr>re = None, extra = Some r, glob_pattern = None, glob_flags = 0\<rparr>
           | _ \<Rightarrow> Inl AssertFail)
      | GLOB \<Rightarrow>
          Inr \<lparr>re = None, extra = None,
               glob_pattern = (case match opt of Pattern p \<Rightarrow> Some p | _ \<Rightarrow> None),
               glob_flags = (if icase opt then FNM_CASEFOLD else 0)\<rparr>
      | NONE \<Rightarrow> Inr \<lparr>re = None, extra = None, glob_pattern = None, glob_flags = 0\<rparr>)"

text \<open>
  The \<^verbatim>\<open>switch (opt->mode)\<close> of the walker up to the label \<^verbatim>\<open>success\<close>: whether the
  entry's name passes the match test.
\<close>

definition perform_match :: "world \<Rightarrow> options \<Rightarrow> tls \<Rightarrow> string \<Rightarrow> halt + bool" where
  "perform_match w opt t name =
     (case mode opt of
        REGEX \<Rightarrow>
          (case extra t of
             None \<Rightarrow> Inl NullDeref
           | Some r \<Rightarrow> Inr (pcre_jit_exec w r name > 0))
      | GLOB \<Rightarrow>
          (case glob_pattern t of
             None \<Rightarrow> Inl NullDeref
           | Some p \<Rightarrow> Inr (fnmatch w p name (glob_flags t) = 0))
      | NONE \<Rightarrow> Inr True)"

text \<open>
  \<^verbatim>\<open>current\<close>: \<^verbatim>\<open>strncpy\<close> takes \<open>l_parent\<close> characters of the parent (and fills
  up with zeros when the parent is shorter, which ends the string there), then the slash
  and the name.
\<close>

definition path_join :: "string \<Rightarrow> nat \<Rightarrow> string \<Rightarrow> string" where
  "path_join parent l_parent name =
     (if length parent < l_parent then parent else take l_parent parent @ ''/'' @ name)"

text \<open>
  The handle of a child directory: a fresh handle with no referent; when ignore rules
  are on, the child is opened as a repository, and when that fails the fresh handle is
  released and the parent's is duplicated.
\<close>

definition child_repo :: "world \<Rightarrow> options \<Rightarrow> string \<Rightarrow> shared_ptr \<Rightarrow> heap
    \<Rightarrow> halt + (shared_ptr \<times> heap)" where
  "child_repo w opt current rp h =
     (case make_shared None h of
        (currentrepo, h1) \<Rightarrow>
          if \<not> no_ignore opt
          then (case git_repository_open w current h1 of
                  (Some g, h2) \<Rightarrow> Inr (currentrepo\<lparr>ptr := Some g\<rparr>, h2)
                | (None, h2) \<Rightarrow>
                    bind_halt (free_shared currentrepo h2) (\<lambda>h3. make_shared_copy rp h3))
          else Inr (currentrepo, h1))"

text \<open>
  \<^verbatim>\<open>depth + 1\<close> is an addition of 32-bit \<^verbatim>\<open>int\<close>s, which wraps around at
  \<^verbatim>\<open>INT_MAX\<close> on the machine; then the conversion of the sum to the \<^verbatim>\<open>size_t\<close>
  priority.
\<close>

definition int_of_sum :: "int \<Rightarrow> int" where
  "int_of_sum i = (i + 2 ^ 31) mod 2 ^ 32 - 2 ^ 31"

definition size_t_of_int :: "int \<Rightarrow> nat" where
  "size_t_of_int i = nat (i mod 2 ^ 64)"

text \<open>The body of the loop over the entries of a directory.\<close>

definition walk_entry :: "world \<Rightarrow> options \<Rightarrow> tls \<Rightarrow> string \<Rightarrow> nat \<Rightarrow> int \<Rightarrow> shared_ptr
    \<Rightarrow> dirent \<Rightarrow> state \<Rightarrow> halt + state" where
  "walk_entry w opt t parent l_parent dep rp entry s =
     (if d_name entry = ''.'' \<or> d_name entry = ''..'' then Inr s
      else if skip_hidden opt \<and> d_name entry = [] then Inl OutOfBounds
      else if skip_hidden opt \<and>
              (hd (d_name entry) = CHR ''.'' \<or> last (d_name entry) = CHR ''~'') then Inr s
      else if \<not> no_ignore opt \<and>
              (case ptr rp of None \<Rightarrow> False | Some g \<Rightarrow> git_ignore w g (d_name entry))
      then Inr s
      else
        (let l_current = l_parent + length (d_name entry) + 1;
             current = path_join parent l_parent (d_name entry) in
         bind_halt (perform_match w opt t (d_name entry))
           (\<lambda>matched.
              let s1 = (if matched \<and>
                           (only_type opt = DT_UNKNOWN \<or> only_type opt = d_type entry)
                        then process_match w current parent (d_name entry) opt s else s) in
              if d_type entry = DT_DIR
              then (let s2 = flagman_acquire s1 in
                    bind_halt (child_repo w opt current rp (mem s2))
                      (\<lambda>(currentrepo, h).
                         bind_halt
                           (queue_put (opt_q s2)
                              (Some (message_body_new (int_of_sum (dep + 1)) l_current
                                       current currentrepo))
                              (size_t_of_int (int_of_sum (dep + 1))))
                           (\<lambda>q1. Inr (s2\<lparr>opt_q := q1, mem := h,
                                          events := events s2 @
                                            [EvPut current (size_t_of_int (int_of_sum (dep + 1)))]\<rparr>))))
              else Inr s1)))"

fun walk_entries :: "world \<Rightarrow> options \<Rightarrow> tls \<Rightarrow> string \<Rightarrow> nat \<Rightarrow> int \<Rightarrow> shared_ptr
    \<Rightarrow> dirent list \<Rightarrow> state \<Rightarrow> halt + state" where
  "walk_entries w opt t parent l_parent dep rp [] s = Inr s"
| "walk_entries w opt t parent l_parent dep rp (e # es) s =
     bind_halt (walk_entry w opt t parent l_parent dep rp e s)
       (walk_entries w opt t parent l_parent dep rp es)"

text \<open>
  Modelled from the spec: \<^verbatim>\<open>macros.h\<close> is not among the sources. \<^verbatim>\<open>foreach_opendir\<close>
  runs its body for every entry of the directory; when the directory cannot be opened
  the walker returns silently.
\<close>

definition walk :: "world \<Rightarrow> options \<Rightarrow> tls \<Rightarrow> string \<Rightarrow> nat \<Rightarrow> int \<Rightarrow> shared_ptr
    \<Rightarrow> state \<Rightarrow> halt + state" where
  "walk w opt t parent l_parent dep rp s =
     (if max_depth opt > 0 \<and> dep \<ge> max_depth opt then Inr s
      else (case fs_dir w parent of
              None \<Rightarrow> Inr s
            | Some es \<Rightarrow> walk_entries w opt t parent l_parent dep rp es s))"

section \<open>The workers and the driver (ff.c)\<close>

text \<open>The body of the worker's loop for a message: the walk, then the release.\<close>

definition worker_item :: "world \<Rightarrow> options \<Rightarrow> tls \<Rightarrow> message_body \<Rightarrow> state \<Rightarrow> halt + state" where
  "worker_item w opt t b s =
     bind_halt (walk w opt t (str b) (len b) (depth b) (repo b) s)
       (\<lambda>s1. Inr (flagman_release s1))"

text \<open>
  Modelled from the spec: \<^verbatim>\<open>foreach_queue_get\<close> is a macro of \<^verbatim>\<open>macros.h\<close>. A worker
  takes a message from the queue, leaves its loop when the message is \<^verbatim>\<open>NULL\<close>, and
  otherwise runs the body and destroys the message. The boolean of the result tells
  whether the loop goes on.
\<close>

definition worker_iter :: "world \<Rightarrow> options \<Rightarrow> tls \<Rightarrow> state \<Rightarrow> halt + (bool \<times> state)" where
  "worker_iter w opt t s =
     bind_halt (queue_get (opt_q s))
       (\<lambda>(m, q1).
          let s0 = s\<lparr>opt_q := q1, events := events s @ [EvGet (map_option str m)]\<rparr> in
          case m of
            None \<Rightarrow> Inr (False, s0)
          | Some b \<Rightarrow>
              bind_halt (worker_item w opt t b s0)
                (\<lambda>s1. bind_halt (message_body_free b (mem s1))
                         (\<lambda>h. Inr (True, s1\<lparr>mem := h\<rparr>))))"

text \<open>The driver puts one root on the queue.\<close>

definition seed_root :: "world \<Rightarrow> options \<Rightarrow> string \<Rightarrow> state \<Rightarrow> halt + state" where
  "seed_root w opt a s =
     (case make_shared None (mem s) of
        (rp0, h1) \<Rightarrow>
          (case (if \<not> no_ignore opt then git_repository_open_ext w a h1 else (None, h1)) of
             (g, h2) \<Rightarrow>
               bind_halt
                 (queue_put_head (opt_q s)
                    (Some (message_body_new 0 (length a) a (rp0\<lparr>ptr := g\<rparr>))))
                 (\<lambda>q1. Inr (s\<lparr>opt_q := q1, mem := h2,
                                events := events s @ [EvPutHead a]\<rparr>))))"

text \<open>
  A run is an interleaving of steps of the main thread and of the workers. The main
  thread is at one of these places: seeding the roots that are left (when none is left it
  stands at \<^verbatim>\<open>flagman_wait\<close>), sending the terminators that are left (when none is
  left it stands at the joins), or returned. A step of a worker is one turn of its loop,
  from \<^verbatim>\<open>queue_get\<close> to the destruction of the message, run without another thread in
  between: these are the interleavings in which no thread is preempted inside a turn. A
  step of a thread that cannot go on is \<open>Blocked\<close>.
\<close>

datatype main_pc = Seeding "string list" | Terminating nat | Returned int

record sys =
  shared :: state
  main_at :: main_pc
  running :: "bool list"

datatype tid = MainThread | WorkerThread nat

definition heap_new :: heap where
  "heap_new = \<lparr>cells = (\<lambda>a. None), next_cell = 0, git_next = 0, git_freed = []\<rparr>"

text \<open>
  \<^verbatim>\<open>main\<close> after a successful parse, up to the creation of the threads: the queue, the
  flagman with its one \<^verbatim>\<open>flagman_acquire\<close>, and \<open>nthreads\<close> workers. The roots to
  seed are the arguments, or \<^verbatim>\<open>"."\<close> when there is none.
\<close>

definition main_start :: "options \<Rightarrow> sys" where
  "main_start opt =
     \<lparr>shared = flagman_acquire
                  \<lparr>opt_q = queue_new, flagman_lock = flagman_new, mem = heap_new,
                   stdout = [], events = []\<rparr>,
      main_at = Seeding (if roots opt = [] then [''.''] else roots opt),
      running = replicate (nat (nthreads opt)) True\<rparr>"

definition main_step :: "world \<Rightarrow> options \<Rightarrow> sys \<Rightarrow> halt + sys" where
  "main_step w opt y =
     (case main_at y of
        Seeding (a # rest) \<Rightarrow>
          bind_halt (seed_root w opt a (shared y))
            (\<lambda>s. Inr (y\<lparr>shared := s, main_at := Seeding rest\<rparr>))
      | Seeding [] \<Rightarrow>
          bind_halt (flagman_wait (shared y))
            (\<lambda>s. Inr (y\<lparr>shared := s, main_at := Terminating (nat (nthreads opt))\<rparr>))
      | Terminating (Suc k) \<Rightarrow>
          bind_halt (queue_put_tail (opt_q (shared y)) None)
            (\<lambda>q1. Inr (y\<lparr>shared := (shared y)\<lparr>opt_q := q1,
                                     events := events (shared y) @ [EvPutTail]\<rparr>,
                          main_at := Terminating k\<rparr>))
      | Terminating 0 \<Rightarrow>
          if list_ex (\<lambda>r. r) (running y) then Inl Blocked
          else Inr (y\<lparr>main_at := Returned 0\<rparr>)
      | Returned c \<Rightarrow> Inl Blocked)"

definition worker_step :: "world \<Rightarrow> options \<Rightarrow> nat \<Rightarrow> sys \<Rightarrow> halt + sys" where
  "worker_step w opt i y =
     (if i < length (running y) \<and> running y ! i
      then bind_halt (worker_tls opt)
             (\<lambda>t. bind_halt (worker_iter w opt t (shared y))
                     (\<lambda>(go, s). Inr (y\<lparr>shared := s, running := (running y)[i := go]\<rparr>)))
      else Inl Blocked)"

definition step :: "world \<Rightarrow> options \<Rightarrow> tid \<Rightarrow> sys \<Rightarrow> halt + sys" where
  "step w opt th y =
     (case th of MainThread \<Rightarrow> main_step w opt y | WorkerThread i \<Rightarrow> worker_step w opt i y)"

fun run :: "world \<Rightarrow> options \<Rightarrow> tid list \<Rightarrow> sys \<Rightarrow> halt + sys" where
  "run w opt [] y = Inr y"
| "run w opt (th # ths) y = bind_halt (step w opt th y) (run w opt ths)"

text \<open>
  \<^verbatim>\<open>main\<close>: the defaults, the parse, and for a successful parse the run under a
  schedule. A failed parse returns 1 and \<^verbatim>\<open>--help\<close> returns 0, before any thread
  exists.
\<close>

datatype outcome = Exit int "err_out list" | Ran options sys

definition main :: "world \<Rightarrow> bool \<Rightarrow> int \<Rightarrow> options \<Rightarrow> (char \<times> string option) list
    \<Rightarrow> string list \<Rightarrow> tid list \<Rightarrow> halt + outcome" where
  "main w tty nprocs opt0 getopts args sched =
     bind_halt
       (parse_options w getopts args
          \<lparr>p_opt = main_defaults tty nprocs opt0, p_errno = 0, p_stderr = []\<rparr>)
       (\<lambda>(r, st).
          case r of
            OPTIONS_SUCCESS \<Rightarrow>
              bind_halt (run w (p_opt st) sched (main_start (p_opt st)))
                (\<lambda>y. Inr (Ran (p_opt st) y))
          | OPTIONS_FAILURE \<Rightarrow> Inr (Exit 1 (p_stderr st))
          | OPTIONS_HELP \<Rightarrow> Inr (Exit 0 (p_stderr st)))"

section \<open>Notions the properties are stated with\<close>

text \<open>Successive insertions into a queue, and \<open>n\<close> successive dequeues.\<close>

fun put_all :: "('m option \<times> nat) list \<Rightarrow> 'm queue \<Rightarrow> halt + 'm queue" where
  "put_all [] q = Inr q"
| "put_all ((m, pr) # rest) q = bind_halt (queue_put q m pr) (put_all rest)"

fun drain :: "nat \<Rightarrow> 'm queue \<Rightarrow> halt + 'm option list" where
  "drain 0 q = Inr []"
| "drain (Suc n) q =
     bind_halt (queue_get q)
       (\<lambda>(m, q1). bind_halt (drain n q1) (\<lambda>ms. Inr (m # ms)))"

text \<open>
  What can be done with a handle: duplicate it, release it, or pass it to the walker as
  the parent's handle when a child directory is queued. \<open>live_after n xs\<close> is the
  number of handles to the referent that are left when the operations \<open>xs\<close> are applied
  while \<open>n\<close> handles exist; it is \<open>None\<close> when an operation is applied although no
  handle is left. The walker adds a handle exactly when ignore rules are on and the child
  is not a repository of its own. \<open>countable n xs\<close>: there are fewer than \<open>2 ^ 32\<close>
  handles before and after each of the operations.
\<close>

datatype handle_op = Duplicate | Release | WalkChild string

definition apply_op :: "world \<Rightarrow> options \<Rightarrow> shared_ptr \<Rightarrow> handle_op \<Rightarrow> heap \<Rightarrow> halt + heap" where
  "apply_op w opt s x h =
     (case x of
        Duplicate \<Rightarrow> bind_halt (make_shared_copy s h) (\<lambda>(s1, h1). Inr h1)
      | Release \<Rightarrow> free_shared s h
      | WalkChild current \<Rightarrow> bind_halt (child_repo w opt current s h) (\<lambda>(s1, h1). Inr h1))"

fun run_ops :: "world \<Rightarrow> options \<Rightarrow> shared_ptr \<Rightarrow> handle_op list \<Rightarrow> heap \<Rightarrow> halt + heap" where
  "run_ops w opt s [] h = Inr h"
| "run_ops w opt s (x # xs) h = bind_halt (apply_op w opt s x h) (run_ops w opt s xs)"

definition adds_handle :: "world \<Rightarrow> options \<Rightarrow> handle_op \<Rightarrow> bool" where
  "adds_handle w opt x =
     (case x of
        Duplicate \<Rightarrow> True
      | Release \<Rightarrow> False
      | WalkChild current \<Rightarrow> \<not> no_ignore opt \<and> \<not> git_repo_at w current)"

fun live_after :: "world \<Rightarrow> options \<Rightarrow> nat \<Rightarrow> handle_op list \<Rightarrow> nat option" where
  "live_after w opt n [] = Some n"
| "live_after w opt n (x # xs) =
     (if n = 0 then None
      else if x = Release then live_after w opt (n - 1) xs
      else if adds_handle w opt x then live_after w opt (Suc n) xs
      else live_after w opt n xs)"

fun countable :: "world \<Rightarrow> options \<Rightarrow> nat \<Rightarrow> handle_op list \<Rightarrow> bool" where
  "countable w opt n [] = (n < 2 ^ 32)"
| "countable w opt n (x # xs) =
     (n < 2 ^ 32 \<and>
      (if x = Release then countable w opt (n - 1) xs
       else if adds_handle w opt x then countable w opt (Suc n) xs
       else countable w opt n xs))"

text \<open>
  A handle is live in a heap when its counter cell is allocated. The names that
  \<^verbatim>\<open>readdir\<close> gives are not empty. After a successful parse the member of
  \<^verbatim>\<open>opt->match\<close> that the mode reads is the one that was written. A queue whose list
  is empty has no tail pointer.
\<close>

definition handle_live :: "shared_ptr \<Rightarrow> heap \<Rightarrow> bool" where
  "handle_live s h =
     (case refcnt s of None \<Rightarrow> False | Some a \<Rightarrow> a < next_cell h \<and> cells h a \<noteq> None)"

definition names_ok :: "dirent list option \<Rightarrow> bool" where
  "names_ok d = (case d of None \<Rightarrow> True | Some es \<Rightarrow> list_all (\<lambda>e. d_name e \<noteq> []) es)"

definition matcher_set :: "options \<Rightarrow> bool" where
  "matcher_set opt =
     (case mode opt of
        REGEX \<Rightarrow> (case match opt of Re r \<Rightarrow> True | _ \<Rightarrow> False)
      | GLOB \<Rightarrow> (case match opt of Pattern p \<Rightarrow> True | _ \<Rightarrow> False)
      | NONE \<Rightarrow> True)"

definition queue_ok :: "'m queue \<Rightarrow> bool" where
  "queue_ok q = (q_list q \<noteq> [] \<or> q_tail q = None)"

text \<open>
  \<open>returns P r\<close>: the step \<open>r\<close> returns, without a fault and without blocking, a
  result for which \<open>P\<close> holds. \<open>walked rp s s1\<close>: from \<open>s\<close> to \<open>s1\<close> the queue has
  stayed well-formed, the handle \<open>rp\<close> has stayed live, and the history has grown by
  events none of which is a release.
\<close>

definition returns :: "('a \<Rightarrow> bool) \<Rightarrow> halt + 'a \<Rightarrow> bool" where
  "returns P r = (case r of Inl e \<Rightarrow> False | Inr x \<Rightarrow> P x)"

definition walked :: "shared_ptr \<Rightarrow> state \<Rightarrow> state \<Rightarrow> bool" where
  "walked rp s s1 =
     (queue_ok (opt_q s1) \<and> handle_live rp (mem s1)
      \<and> (\<exists>evs. events s1 = events s @ evs \<and> EvRelease \<notin> set evs))"

text \<open>
  What the walk of a directory prints. \<open>printed_line\<close> is the line that
  \<^verbatim>\<open>process_match\<close> writes for an entry of the directory \<open>parent\<close>.
  \<open>passes_filters\<close>: the entry is neither \<open>.\<close> nor \<open>..\<close>, is not hidden when
  hidden entries are skipped, is not ignored by the parent's repository when ignore rules
  are on, and is of the type asked for. \<open>walk_prints\<close>: the lines of the entries that
  \<open>keep\<close> holds for, in the order of \<^verbatim>\<open>readdir\<close>, and nothing when the depth limit
  is reached or the directory cannot be opened.
\<close>

definition printed_line :: "world \<Rightarrow> options \<Rightarrow> string \<Rightarrow> nat \<Rightarrow> dirent \<Rightarrow> string" where
  "printed_line w opt parent l_parent e =
     (if colorize opt
      then DIRCOLOR_DIR w @ parent @ ''/'' @ DIRCOLOR_RESET w @
           dircolor w (path_join parent l_parent (d_name e)) @ d_name e @ DIRCOLOR_RESET w
      else path_join parent l_parent (d_name e))"

definition passes_filters :: "world \<Rightarrow> options \<Rightarrow> shared_ptr \<Rightarrow> dirent \<Rightarrow> bool" where
  "passes_filters w opt rp e =
     (d_name e \<noteq> ''.'' \<and> d_name e \<noteq> ''..''
      \<and> \<not> (skip_hidden opt \<and> (hd (d_name e) = CHR ''.'' \<or> last (d_name e) = CHR ''~''))
      \<and> \<not> (\<not> no_ignore opt \<and>
             (case ptr rp of None \<Rightarrow> False | Some g \<Rightarrow> git_ignore w g (d_name e)))
      \<and> (only_type opt = DT_UNKNOWN \<or> only_type opt = d_type e))"

definition walk_prints :: "world \<Rightarrow> options \<Rightarrow> string \<Rightarrow> nat \<Rightarrow> int \<Rightarrow> (dirent \<Rightarrow> bool)
    \<Rightarrow> string list" where
  "walk_prints w opt parent l_parent dep keep =
     (if max_depth opt > 0 \<and> dep \<ge> max_depth opt then []
      else (case fs_dir w parent of
              None \<Rightarrow> []
            | Some es \<Rightarrow> map (printed_line w opt parent l_parent) (filter keep es)))"

section \<open>A small world for concrete runs\<close>

text \<open>
  Modelled from the spec: PCRE is not among the sources. For a pattern without
  metacharacters the model of \<^verbatim>\<open>pcre_jit_exec\<close> returns 1 when the pattern occurs in
  the subject, letters compared without case when the regex was compiled with the
  case-fold flag, and \<^verbatim>\<open>PCRE_ERROR_NOMATCH\<close> (-1) otherwise.
\<close>

definition ascii_lower :: "char \<Rightarrow> char" where
  "ascii_lower c =
     (case map_of (zip ''ABCDEFGHIJKLMNOPQRSTUVWXYZ'' ''abcdefghijklmnopqrstuvwxyz'') c of
        Some l \<Rightarrow> l
      | None \<Rightarrow> c)"

fun starts_with :: "string \<Rightarrow> string \<Rightarrow> bool" where
  "starts_with [] s = True"
| "starts_with (p # ps) [] = False"
| "starts_with (p # ps) (c # cs) = (p = c \<and> starts_with ps cs)"

fun occurs_in :: "string \<Rightarrow> string \<Rightarrow> bool" where
  "occurs_in p [] = (p = [])"
| "occurs_in p (c # cs) = (starts_with p (c # cs) \<or> occurs_in p cs)"

definition literal_exec :: "pcre \<Rightarrow> string \<Rightarrow> int" where
  "literal_exec r subject =
     (if re_caseless r
      then (if occurs_in (map ascii_lower (re_pattern r)) (map ascii_lower subject)
            then 1 else - 1)
      else (if occurs_in (re_pattern r) subject then 1 else - 1))"

text \<open>
  The directory \<open>a\<close> holds the directory \<open>x\<close>, which holds the file \<open>f\<close>; the
  directory \<open>b\<close> is empty; \<open>t\<close> holds the file \<open>README\<close>. Nothing is a repository.
  \<^verbatim>\<open>fnmatch\<close> compares the pattern with the name, letters without case when
  \<^verbatim>\<open>FNM_CASEFOLD\<close> is among the flags, which is what it does for a pattern without
  metacharacters; \<^verbatim>\<open>strtoul\<close> knows the numeral 1.
\<close>

definition dots :: "dirent list" where
  "dots = [\<lparr>d_name = ''.'', d_type = DT_DIR\<rparr>, \<lparr>d_name = ''..'', d_type = DT_DIR\<rparr>]"

definition small_world :: world where
  "small_world =
     \<lparr>fs_dir = (\<lambda>p. if p = ''a'' then Some (dots @ [\<lparr>d_name = ''x'', d_type = DT_DIR\<rparr>])
                     else if p = ''a/x'' then Some (dots @ [\<lparr>d_name = ''f'', d_type = DT_REG\<rparr>])
                     else if p = ''b'' then Some dots
                     else if p = ''t'' then Some (dots @ [\<lparr>d_name = ''README'', d_type = DT_REG\<rparr>])
                     else None),
      git_repo_at = (\<lambda>p. False),
      git_repo_above = (\<lambda>p. None),
      git_ignore = (\<lambda>g n. False),
      pcre_jit_exec = literal_exec,
      fnmatch = (\<lambda>p n f. if (if f div FNM_CASEFOLD mod 2 = 1
                                 then map ascii_lower p = map ascii_lower n
                                 else p = n)
                             then 0 else 1),
      strtoul = (\<lambda>a. (if a = ''1'' then 1 else 0, False)),
      dircolor = (\<lambda>p. []),
      DIRCOLOR_DIR = [],
      DIRCOLOR_RESET = []\<rparr>"

text \<open>Some content of the options structure before \<^verbatim>\<open>main\<close> writes its defaults.\<close>

definition raw_options :: options where
  "raw_options =
     \<lparr>mode = GLOB, only_type = DT_REG, skip_hidden = False, max_depth = 0,
      colorize = True, icase = True, no_ignore = True, nthreads = 0,
      deterministic = False, match = Unset, roots = []\<rparr>"

section \<open>Evaluation\<close>

lemma bind_halt_Inl: "bind_halt (Inl e) f = Inl e"
  by (simp add: bind_halt_def)

lemma bind_halt_Inr: "bind_halt (Inr x) f = f x"
  by (simp add: bind_halt_def)

lemma bind_halt_weak_cong: "r = r' \<Longrightarrow> bind_halt r f = bind_halt r' f"
  by simp

lemmas engine_defs =
  main_def parse_options_def main_defaults_def getopt_case_def long_strtoul_def
  scan_pattern_def set_matcher_def print_usage_def ERANGE_def type_of_char_def
  regex_compile_def main_start_def flagman_new_def flagman_acquire_def
  flagman_release_def flagman_wait_def queue_new_def queue_put_def queue_put_head_def
  queue_put_tail_def queue_get_def QUEUE_PRIORITY_MAX_def QUEUE_PRIORITY_MIN_def
  heap_new_def make_shared_def free_shared_def make_shared_copy_def
  message_body_new_def message_body_free_def git_repository_open_def
  git_repository_open_ext_def process_match_def worker_tls_def FNM_CASEFOLD_def
  perform_match_def path_join_def child_repo_def int_of_sum_def size_t_of_int_def
  walk_entry_def
  walk_def worker_item_def worker_iter_def seed_root_def main_step_def worker_step_def
  step_def

lemmas world_defs =
  small_world_def dots_def raw_options_def literal_exec_def ascii_lower_def

lemmas print_defs =
  printed_line_def passes_filters_def walk_prints_def

section \<open>Facts about the parse\<close>

lemma getopt_loop_append:
  "getopt_loop w (xs @ ys) st =
     bind_halt (getopt_loop w xs st)
       (\<lambda>(r, st1). case r of Some res \<Rightarrow> Inr (Some res, st1) | None \<Rightarrow> getopt_loop w ys st1)"
proof (induction xs arbitrary: st)
  case Nil
  show ?case by (simp add: bind_halt_Inr)
next
  case (Cons x xs)
  obtain c a where x: "x = (c, a)" by (cases x)
  show ?case
  proof (cases "getopt_case w c a st")
    case (Inl e)
    then show ?thesis by (simp add: x bind_halt_Inl)
  next
    case (Inr p)
    obtain r st1 where p: "p = (r, st1)" by (cases p)
    show ?thesis
      by (cases r) (simp_all add: x Inr p bind_halt_Inr Cons.IH)
  qed
qed

lemma getopt_case_flags:
  assumes "getopt_case w c a st = Inr (None, st1)"
  shows "mode (p_opt st1) = (if c = CHR ''g'' then GLOB else mode (p_opt st))"
    and "icase (p_opt st1) = (c = CHR ''i'' \<or> icase (p_opt st))"
  using assms
  by (auto simp: getopt_case_def long_strtoul_def Let_def
      split: if_splits option.splits list.splits prod.splits)

lemma getopt_loop_flags:
  assumes "getopt_loop w getopts st = Inr (None, st1)"
  shows "mode (p_opt st1) = (if CHR ''g'' \<in> fst ` set getopts then GLOB else mode (p_opt st))
       \<and> icase (p_opt st1) = (CHR ''i'' \<in> fst ` set getopts \<or> icase (p_opt st))"
  using assms
proof (induction getopts arbitrary: st)
  case Nil
  then show ?case by simp
next
  case (Cons x xs)
  obtain c a where x: "x = (c, a)" by (cases x)
  from Cons.prems obtain st2 where
    c: "getopt_case w c a st = Inr (None, st2)" and l: "getopt_loop w xs st2 = Inr (None, st1)"
    by (auto simp: x bind_halt_def split: sum.splits option.splits)
  from Cons.IH [OF l] getopt_case_flags [OF c] show ?case
    by (auto simp: x)
qed

lemma check_roots_opt:
  "check_roots w rs st = (r, rs1, st1) \<Longrightarrow> p_opt st1 = p_opt st"
proof (induction rs arbitrary: r rs1 st1)
  case Nil
  then show ?case by simp
next
  case (Cons a rs)
  show ?case
  proof (cases "fs_dir w a = None")
    case True
    with Cons.prems show ?thesis by (auto simp: print_usage_def)
  next
    case False
    obtain r2 rs2 st2 where c: "check_roots w rs st = (r2, rs2, st2)"
      by (cases "check_roots w rs st")
    with False Cons.prems have "st1 = st2" by auto
    with Cons.IH [OF c] show ?thesis by simp
  qed
qed

lemma getopt_case_not_success:
  "getopt_case w c a st \<noteq> Inr (Some OPTIONS_SUCCESS, st1)"
  by (auto simp: getopt_case_def long_strtoul_def Let_def
      split: if_splits option.splits list.splits prod.splits)

lemma getopt_loop_not_success:
  "getopt_loop w getopts st \<noteq> Inr (Some OPTIONS_SUCCESS, st1)"
proof (induction getopts arbitrary: st)
  case Nil
  then show ?case by simp
next
  case (Cons x xs)
  obtain c a where x: "x = (c, a)" by (cases x)
  show ?case
  proof (cases "getopt_case w c a st")
    case (Inl e)
    then show ?thesis by (simp add: x bind_halt_Inl)
  next
    case (Inr p)
    obtain r st2 where p: "p = (r, st2)" by (cases p)
    show ?thesis
    proof (cases r)
      case None
      then show ?thesis by (simp add: x Inr p bind_halt_Inr Cons.IH)
    next
      case (Some res)
      with Inr p getopt_case_not_success [of w c a st st1] show ?thesis
        by (auto simp: x bind_halt_Inr)
    qed
  qed
qed

lemma check_roots_not_success:
  "check_roots w rs st \<noteq> (Some OPTIONS_SUCCESS, rs1, st1)"
proof (induction rs arbitrary: rs1 st1)
  case Nil
  show ?case by simp
next
  case (Cons a rs)
  show ?case
  proof (cases "fs_dir w a = None")
    case True
    then show ?thesis by simp
  next
    case False
    obtain r2 rs2 st2 where c: "check_roots w rs st = (r2, rs2, st2)"
      by (cases "check_roots w rs st")
    with Cons.IH [of rs2 st2] have "r2 \<noteq> Some OPTIONS_SUCCESS" by auto
    with False c show ?thesis by auto
  qed
qed

lemma parse_options_success:
  assumes "parse_options w getopts args st0 = Inr (OPTIONS_SUCCESS, st)"
  obtains st1 pattern rest opt1 rs st2 where
    "getopt_loop w getopts st0 = Inr (None, st1)"
    "scan_pattern args (p_opt st1) = (pattern, rest, opt1)"
    "check_roots w rest (st1\<lparr>p_opt := opt1\<rparr>) = (None, rs, st2)"
    "p_opt st = set_matcher pattern (opt1\<lparr>roots := rs\<rparr>)"
proof -
  from assms obtain r st1 where l: "getopt_loop w getopts st0 = Inr (r, st1)"
    by (cases "getopt_loop w getopts st0") (auto simp: parse_options_def bind_halt_def)
  have r: "r = None"
  proof (cases r)
    case (Some res)
    with assms l getopt_loop_not_success [of w getopts st0 st1] show ?thesis
      by (auto simp: parse_options_def bind_halt_Inr)
  qed simp
  obtain pattern rest opt1 where s: "scan_pattern args (p_opt st1) = (pattern, rest, opt1)"
    by (cases "scan_pattern args (p_opt st1)")
  obtain c rs st2 where c: "check_roots w rest (st1\<lparr>p_opt := opt1\<rparr>) = (c, rs, st2)"
    by (cases "check_roots w rest (st1\<lparr>p_opt := opt1\<rparr>)")
  have c2: "c = None"
  proof (cases c)
    case (Some res)
    with assms l r s c check_roots_not_success [of w rest "st1\<lparr>p_opt := opt1\<rparr>" rs st2]
    show ?thesis
      by (auto simp: parse_options_def bind_halt_Inr)
  qed simp
  from check_roots_opt [OF c] have o: "p_opt st2 = opt1" by simp
  from assms l r s c c2 o have "p_opt st = set_matcher pattern (opt1\<lparr>roots := rs\<rparr>)"
    by (auto simp: parse_options_def bind_halt_Inr)
  with l r s c c2 show thesis
    by (auto intro: that)
qed

lemma main_ran:
  assumes "main w tty nprocs opt0 getopts args sched = Inr (Ran opt y)"
  shows "\<exists>st. parse_options w getopts args
           \<lparr>p_opt = main_defaults tty nprocs opt0, p_errno = 0, p_stderr = []\<rparr>
             = Inr (OPTIONS_SUCCESS, st) \<and> opt = p_opt st
           \<and> run w opt sched (main_start opt) = Inr y"
  using assms
  by (auto simp: main_def bind_halt_def split: sum.splits prod.splits parse_result.splits)

section \<open>Facts about the reference count\<close>

lemma count_word_pred:
  assumes "0 < n" "n < 2 ^ 32"
  shows "(of_nat n :: 32 word) - 1 = of_nat (n - 1)"
    and "((of_nat n :: 32 word) - 1 = 0) = (n = 1)"
proof -
  show p: "(of_nat n :: 32 word) - 1 = of_nat (n - 1)"
    using assms by simp
  have "(of_nat (n - 1) :: 32 word) = 0 \<longleftrightarrow> n - 1 = 0"
  proof
    assume "(of_nat (n - 1) :: 32 word) = 0"
    then have "2 ^ 32 dvd n - 1"
      by (simp add: word_of_nat_eq_0_iff)
    with assms show "n - 1 = 0"
      by (auto dest: dvd_imp_le)
  qed simp
  with assms p show "((of_nat n :: 32 word) - 1 = 0) = (n = 1)"
    by auto
qed

text \<open>One operation on a handle whose counter holds the number of live handles.\<close>

lemma apply_op_counts:
  assumes s: "refcnt s = Some a" "ptr s = Some g"
    and c: "cells h a = Some (of_nat n)" "0 < n" "n < 2 ^ 32" "a < next_cell h"
  shows "x = Release \<Longrightarrow> n = 1 \<Longrightarrow>
           \<exists>h1. apply_op w opt s x h = Inr h1 \<and> cells h1 a = None \<and> a < next_cell h1
               \<and> count_list (git_freed h1) (Some g) = Suc (count_list (git_freed h) (Some g))"
    and "x = Release \<Longrightarrow> 1 < n \<Longrightarrow>
           \<exists>h1. apply_op w opt s x h = Inr h1 \<and> cells h1 a = Some (of_nat (n - 1))
               \<and> a < next_cell h1
               \<and> count_list (git_freed h1) (Some g) = count_list (git_freed h) (Some g)"
    and "x \<noteq> Release \<Longrightarrow> adds_handle w opt x \<Longrightarrow>
           \<exists>h1. apply_op w opt s x h = Inr h1 \<and> cells h1 a = Some (of_nat (Suc n))
               \<and> a < next_cell h1
               \<and> count_list (git_freed h1) (Some g) = count_list (git_freed h) (Some g)"
    and "x \<noteq> Release \<Longrightarrow> \<not> adds_handle w opt x \<Longrightarrow>
           \<exists>h1. apply_op w opt s x h = Inr h1 \<and> cells h1 a = Some (of_nat n)
               \<and> a < next_cell h1
               \<and> count_list (git_freed h1) (Some g) = count_list (git_freed h) (Some g)"
proof -
  note w = count_word_pred [OF c(2,3)]
  show "x = Release \<Longrightarrow> n = 1 \<Longrightarrow>
           \<exists>h1. apply_op w opt s x h = Inr h1 \<and> cells h1 a = None \<and> a < next_cell h1
               \<and> count_list (git_freed h1) (Some g) = Suc (count_list (git_freed h) (Some g))"
    using s c by (simp add: apply_op_def free_shared_def)
  show "x = Release \<Longrightarrow> 1 < n \<Longrightarrow>
           \<exists>h1. apply_op w opt s x h = Inr h1 \<and> cells h1 a = Some (of_nat (n - 1))
               \<and> a < next_cell h1
               \<and> count_list (git_freed h1) (Some g) = count_list (git_freed h) (Some g)"
    using s c w by (simp add: apply_op_def free_shared_def)
  show "x \<noteq> Release \<Longrightarrow> adds_handle w opt x \<Longrightarrow>
           \<exists>h1. apply_op w opt s x h = Inr h1 \<and> cells h1 a = Some (of_nat (Suc n))
               \<and> a < next_cell h1
               \<and> count_list (git_freed h1) (Some g) = count_list (git_freed h) (Some g)"
    using s c
    by (cases x)
       (auto simp: apply_op_def adds_handle_def make_shared_copy_def bind_halt_Inr
          child_repo_def make_shared_def git_repository_open_def free_shared_def)
  show "x \<noteq> Release \<Longrightarrow> \<not> adds_handle w opt x \<Longrightarrow>
           \<exists>h1. apply_op w opt s x h = Inr h1 \<and> cells h1 a = Some (of_nat n)
               \<and> a < next_cell h1
               \<and> count_list (git_freed h1) (Some g) = count_list (git_freed h) (Some g)"
    using s c
    by (cases x)
       (auto simp: apply_op_def adds_handle_def make_shared_copy_def bind_halt_Inr
          child_repo_def make_shared_def git_repository_open_def free_shared_def)
qed

lemma run_ops_counts:
  assumes s: "refcnt s = Some a" "ptr s = Some g"
    and c: "cells h a = Some (of_nat n)" and n0: "0 < n" and a: "a < next_cell h"
    and l: "live_after w opt n xs = Some m" and b: "countable w opt n xs"
  shows "\<exists>h1. run_ops w opt s xs h = Inr h1
            \<and> (if m = 0
               then cells h1 a = None
                  \<and> count_list (git_freed h1) (Some g) = Suc (count_list (git_freed h) (Some g))
               else cells h1 a = Some (of_nat m)
                  \<and> count_list (git_freed h1) (Some g) = count_list (git_freed h) (Some g))"
  using c n0 a l b
proof (induction xs arbitrary: h n)
  case Nil
  then show ?case by simp
next
  case (Cons x xs)
  from Cons.prems(5) have n32: "n < 2 ^ 32" by simp
  note ops = apply_op_counts [OF s Cons.prems(1,2) n32 Cons.prems(3), of x w opt]
  show ?case
  proof (cases "x = Release")
    case True
    show ?thesis
    proof (cases "n = 1")
      case True
      with \<open>x = Release\<close> Cons.prems(4) have xs: "xs = []" "m = 0"
        by (cases xs; simp)+
      from ops(1) [OF \<open>x = Release\<close> True] xs show ?thesis
        by (auto simp: bind_halt_Inr)
    next
      case False
      with Cons.prems(2) have n: "1 < n" by simp
      from ops(2) [OF \<open>x = Release\<close> n] obtain h1 where
        h1: "apply_op w opt s x h = Inr h1" "cells h1 a = Some (of_nat (n - 1))"
          "a < next_cell h1"
          "count_list (git_freed h1) (Some g) = count_list (git_freed h) (Some g)"
        by blast
      from Cons.prems(4,5) \<open>x = Release\<close> n
      have l: "live_after w opt (n - 1) xs = Some m" and k: "countable w opt (n - 1) xs"
        by simp_all
      from n have pos: "0 < n - 1" by simp
      from Cons.IH [OF h1(2) pos h1(3) l k] obtain h2 where
        "run_ops w opt s xs h1 = Inr h2"
        "if m = 0
         then cells h2 a = None
            \<and> count_list (git_freed h2) (Some g) = Suc (count_list (git_freed h1) (Some g))
         else cells h2 a = Some (of_nat m)
            \<and> count_list (git_freed h2) (Some g) = count_list (git_freed h1) (Some g)"
        by blast
      with h1(1,4) show ?thesis
        by (simp add: bind_halt_Inr)
    qed
  next
    case False
    show ?thesis
    proof (cases "adds_handle w opt x")
      case True
      with False Cons.prems(2,4,5)
      have l: "live_after w opt (Suc n) xs = Some m" and k: "countable w opt (Suc n) xs"
        by simp_all
      from ops(3) [OF False True] obtain h1 where
        h1: "apply_op w opt s x h = Inr h1" "cells h1 a = Some (of_nat (Suc n))"
          "a < next_cell h1"
          "count_list (git_freed h1) (Some g) = count_list (git_freed h) (Some g)"
        by blast
      have pos: "0 < Suc n" by simp
      from Cons.IH [OF h1(2) pos h1(3) l k] obtain h2 where
        "run_ops w opt s xs h1 = Inr h2"
        "if m = 0
         then cells h2 a = None
            \<and> count_list (git_freed h2) (Some g) = Suc (count_list (git_freed h1) (Some g))
         else cells h2 a = Some (of_nat m)
            \<and> count_list (git_freed h2) (Some g) = count_list (git_freed h1) (Some g)"
        by blast
      with h1(1,4) show ?thesis
        by (simp add: bind_halt_Inr)
    next
      case nadd: False
      with False Cons.prems(2,4,5)
      have l: "live_after w opt n xs = Some m" and k: "countable w opt n xs"
        by simp_all
      from ops(4) [OF False nadd] obtain h1 where
        h1: "apply_op w opt s x h = Inr h1" "cells h1 a = Some (of_nat n)"
          "a < next_cell h1"
          "count_list (git_freed h1) (Some g) = count_list (git_freed h) (Some g)"
        by blast
      from Cons.IH [OF h1(2) Cons.prems(2) h1(3) l k] obtain h2 where
        "run_ops w opt s xs h1 = Inr h2"
        "if m = 0
         then cells h2 a = None
            \<and> count_list (git_freed h2) (Some g) = Suc (count_list (git_freed h1) (Some g))
         else cells h2 a = Some (of_nat m)
            \<and> count_list (git_freed h2) (Some g) = count_list (git_freed h1) (Some g)"
        by blast
      with h1(1,4) show ?thesis
        by (simp add: bind_halt_Inr)
    qed
  qed
qed

lemma live_after_append:
  "live_after w opt n (xs @ ys) =
     (case live_after w opt n xs of None \<Rightarrow> None | Some k \<Rightarrow> live_after w opt k ys)"
proof (induction xs arbitrary: n)
  case Nil
  show ?case by simp
next
  case (Cons x xs)
  show ?case
    by (simp add: Cons.IH)
qed

lemma live_after_none_left:
  assumes "live_after w opt 1 xs = Some 0"
  shows "xs \<noteq> [] \<and> last xs = Release \<and> live_after w opt 1 (butlast xs) = Some 1"
proof -
  from assms have ne: "xs \<noteq> []" by auto
  then have xs: "xs = butlast xs @ [last xs]" by simp
  from assms xs have "live_after w opt 1 (butlast xs @ [last xs]) = Some 0" by simp
  then obtain k where k: "live_after w opt 1 (butlast xs) = Some k"
    and l: "live_after w opt k [last xs] = Some 0"
    by (auto simp: live_after_append split: option.splits)
  from l have "last xs = Release \<and> k = 1"
    by (auto split: if_splits)
  with ne k show ?thesis by simp
qed

lemma live_after_duplicates:
  "0 < n \<Longrightarrow> live_after w opt n (replicate k Duplicate @ xs) = live_after w opt (n + k) xs"
  by (induction k arbitrary: n) (simp_all add: adds_handle_def)

lemma duplicates_add:
  assumes "refcnt s = Some a" "cells h a = Some c"
  shows "run_ops w opt s (replicate k Duplicate @ xs) h
           = run_ops w opt s xs (h\<lparr>cells := (cells h)(a \<mapsto> c + of_nat k)\<rparr>)"
  using assms(2)
proof (induction k arbitrary: h c)
  case 0
  then show ?case by (simp add: fun_upd_idem)
next
  case (Suc k)
  let ?h = "h\<lparr>cells := (cells h)(a \<mapsto> c + 1)\<rparr>"
  have d: "apply_op w opt s Duplicate h = Inr ?h"
    using assms(1) Suc.prems
    by (simp add: apply_op_def make_shared_copy_def bind_halt_Inr)
  have c: "cells ?h a = Some (c + 1)" by simp
  have e: "?h\<lparr>cells := (cells ?h)(a \<mapsto> c + 1 + of_nat k)\<rparr>
             = h\<lparr>cells := (cells h)(a \<mapsto> c + of_nat (Suc k))\<rparr>"
    by (simp add: ac_simps)
  have "run_ops w opt s (replicate (Suc k) Duplicate @ xs) h
          = run_ops w opt s (replicate k Duplicate @ xs) ?h"
    by (simp add: d bind_halt_Inr)
  also have "\<dots> = run_ops w opt s xs (?h\<lparr>cells := (cells ?h)(a \<mapsto> c + 1 + of_nat k)\<rparr>)"
    by (rule Suc.IH [OF c])
  also note e
  finally show ?case .
qed

section \<open>Facts about the walk\<close>

lemma returns_Inr: "returns P (Inr x) = P x"
  by (simp add: returns_def)

lemma returns_iff: "returns P r = (\<exists>x. r = Inr x \<and> P x)"
  by (cases r) (simp_all add: returns_def)

lemma returns_bind:
  assumes "returns P r" and "\<And>x. P x \<Longrightarrow> returns Q (f x)"
  shows "returns Q (bind_halt r f)"
  using assms by (cases r) (simp_all add: returns_def bind_halt_def)

lemma put_after_not_empty: "put_after t pr new l \<noteq> []"
  by (cases l) (auto split: if_splits)

lemma queue_put_ok:
  assumes "queue_ok q"
  shows "returns queue_ok (queue_put q m pr)"
  using assms
  by (auto simp: queue_put_def queue_ok_def Let_def put_after_not_empty returns_Inr)

lemma queue_get_ok:
  assumes "queue_get q = Inr (m, q1)"
  shows "queue_ok q1"
  using assms
  by (auto simp: queue_get_def queue_ok_def split: if_splits list.splits)

lemma child_repo_ok:
  assumes "handle_live rp h"
  shows "returns (\<lambda>(c, h1). handle_live rp h1) (child_repo w opt current rp h)"
  using assms
  by (auto simp: child_repo_def handle_live_def make_shared_def git_repository_open_def
        free_shared_def make_shared_copy_def bind_halt_Inr returns_Inr
      split: option.splits)

lemma perform_match_ok:
  assumes "matcher_set opt" "worker_tls opt = Inr t"
  shows "\<exists>b. perform_match w opt t name = Inr b"
  using assms
  by (cases "mode opt"; cases "match opt")
     (auto simp: matcher_set_def worker_tls_def perform_match_def)

lemma walked_refl: "queue_ok (opt_q s) \<Longrightarrow> handle_live rp (mem s) \<Longrightarrow> walked rp s s"
  by (simp add: walked_def)

lemma walked_trans: "walked rp s s1 \<Longrightarrow> walked rp s1 s2 \<Longrightarrow> walked rp s s2"
  by (auto simp: walked_def)

lemma walk_entry_ok:
  assumes q: "queue_ok (opt_q s)" and l: "handle_live rp (mem s)"
    and n: "d_name e \<noteq> []" and m: "matcher_set opt" "worker_tls opt = Inr t"
  shows "returns (walked rp s) (walk_entry w opt t parent l_parent dep rp e s)"
proof -
  from perform_match_ok [OF m] obtain b where
    pm: "perform_match w opt t (d_name e) = Inr b" by blast
  have dir: "returns (walked rp s)
      (bind_halt (child_repo w opt cur rp (mem (flagman_acquire s1)))
         (\<lambda>(currentrepo, h).
            bind_halt (queue_put (opt_q (flagman_acquire s1)) (Some (mk currentrepo)) pr)
              (\<lambda>q1. Inr ((flagman_acquire s1)\<lparr>opt_q := q1, mem := h,
                      events := events (flagman_acquire s1) @ [EvPut cur pr]\<rparr>))))"
    if s1: "opt_q s1 = opt_q s" "mem s1 = mem s" "events s1 = events s"
    for s1 cur mk pr
  proof (rule returns_bind [where P = "\<lambda>(c, h1). handle_live rp h1"])
    show "returns (\<lambda>(c, h1). handle_live rp h1)
            (child_repo w opt cur rp (mem (flagman_acquire s1)))"
      using l s1 by (intro child_repo_ok) (simp add: flagman_acquire_def)
  next
    fix x :: "shared_ptr \<times> heap"
    obtain c h where x: "x = (c, h)" by (cases x)
    assume "case x of (c, h1) \<Rightarrow> handle_live rp h1"
    then have h: "handle_live rp h" by (simp add: x)
    have "returns (walked rp s)
            (bind_halt (queue_put (opt_q (flagman_acquire s1)) (Some (mk c)) pr)
              (\<lambda>q1. Inr ((flagman_acquire s1)\<lparr>opt_q := q1, mem := h,
                      events := events (flagman_acquire s1) @ [EvPut cur pr]\<rparr>)))"
    proof (rule returns_bind [where P = queue_ok])
      show "returns queue_ok (queue_put (opt_q (flagman_acquire s1)) (Some (mk c)) pr)"
        using q s1 by (intro queue_put_ok) (simp add: flagman_acquire_def)
    next
      fix q1 :: "message_body queue"
      assume "queue_ok q1"
      with h s1 show "returns (walked rp s)
          (Inr ((flagman_acquire s1)\<lparr>opt_q := q1, mem := h,
                      events := events (flagman_acquire s1) @ [EvPut cur pr]\<rparr>))"
        by (simp add: returns_Inr walked_def flagman_acquire_def)
    qed
    then show "returns (walked rp s)
           (case x of
            (currentrepo, h) \<Rightarrow>
              bind_halt (queue_put (opt_q (flagman_acquire s1)) (Some (mk currentrepo)) pr)
               (\<lambda>q1. Inr ((flagman_acquire s1)\<lparr>opt_q := q1, mem := h,
                      events := events (flagman_acquire s1) @ [EvPut cur pr]\<rparr>)))"
      by (simp add: x)
  qed
  have keep: "returns (walked rp s) (Inr s1)"
    if "opt_q s1 = opt_q s" "mem s1 = mem s" "events s1 = events s" for s1
    using that q l by (simp add: returns_Inr walked_def)
  show ?thesis
    unfolding walk_entry_def Let_def
    using n
    by (auto simp: pm bind_halt_Inr process_match_def intro!: dir keep)
qed

lemma walk_entries_ok:
  assumes "queue_ok (opt_q s)" "handle_live rp (mem s)"
    and "list_all (\<lambda>e. d_name e \<noteq> []) es" and m: "matcher_set opt" "worker_tls opt = Inr t"
  shows "returns (walked rp s) (walk_entries w opt t parent l_parent dep rp es s)"
  using assms(1,2,3)
proof (induction es arbitrary: s)
  case Nil
  then show ?case by (simp add: returns_Inr walked_refl)
next
  case (Cons e es)
  from Cons.prems have n: "d_name e \<noteq> []" and ns: "list_all (\<lambda>e. d_name e \<noteq> []) es"
    by simp_all
  show ?case
    unfolding walk_entries.simps
  proof (rule returns_bind [where P = "walked rp s"])
    show "returns (walked rp s) (walk_entry w opt t parent l_parent dep rp e s)"
      using Cons.prems(1,2) n m by (rule walk_entry_ok)
  next
    fix s1
    assume w: "walked rp s s1"
    then have "queue_ok (opt_q s1)" "handle_live rp (mem s1)"
      by (simp_all add: walked_def)
    from Cons.IH [OF this ns]
    have "returns (walked rp s1) (walk_entries w opt t parent l_parent dep rp es s1)" .
    then show "returns (walked rp s) (walk_entries w opt t parent l_parent dep rp es s1)"
      using w by (auto simp: returns_iff intro: walked_trans)
  qed
qed

lemma walk_ok:
  assumes "queue_ok (opt_q s)" "handle_live rp (mem s)"
    and "names_ok (fs_dir w parent)" and m: "matcher_set opt" "worker_tls opt = Inr t"
  shows "returns (walked rp s) (walk w opt t parent l_parent dep rp s)"
proof (cases "fs_dir w parent")
  case None
  with assms(1,2) show ?thesis
    by (simp add: walk_def returns_Inr walked_refl)
next
  case (Some es)
  with assms(3) have "list_all (\<lambda>e. d_name e \<noteq> []) es"
    by (simp add: names_ok_def)
  from walk_entries_ok [OF assms(1,2) this m] assms(1,2) Some show ?thesis
    by (simp add: walk_def returns_Inr walked_refl)
qed

lemma child_put_stdout:
  assumes "bind_halt (child_repo w opt cur rp (mem s2))
             (\<lambda>(currentrepo, h).
                bind_halt (queue_put (opt_q s2) (Some (mk currentrepo)) pr)
                  (\<lambda>q1. Inr (s2\<lparr>opt_q := q1, mem := h, events := evs\<rparr>))) = Inr s3"
  shows "stdout s3 = stdout s2"
proof -
  from assms obtain c h where "child_repo w opt cur rp (mem s2) = Inr (c, h)"
    and b: "bind_halt (queue_put (opt_q s2) (Some (mk c)) pr)
                  (\<lambda>q1. Inr (s2\<lparr>opt_q := q1, mem := h, events := evs\<rparr>)) = Inr s3"
    by (cases "child_repo w opt cur rp (mem s2)") (auto simp: bind_halt_def)
  from b obtain q1 where "s3 = s2\<lparr>opt_q := q1, mem := h, events := evs\<rparr>"
    by (cases "queue_put (opt_q s2) (Some (mk c)) pr") (auto simp: bind_halt_def)
  then show ?thesis by simp
qed

lemma walk_entry_stdout:
  assumes "walk_entry w opt t parent l_parent dep rp e s = Inr s1"
  shows "stdout s1 = stdout s @
           (if passes_filters w opt rp e \<and> perform_match w opt t (d_name e) = Inr True
            then [printed_line w opt parent l_parent e] else [])"
proof (cases "d_name e = ''.'' \<or> d_name e = ''..''
          \<or> skip_hidden opt \<and> (hd (d_name e) = CHR ''.'' \<or> last (d_name e) = CHR ''~'')
          \<or> \<not> no_ignore opt \<and>
             (case ptr rp of None \<Rightarrow> False | Some g \<Rightarrow> git_ignore w g (d_name e))")
  case True
  with assms have "s1 = s"
    by (auto simp: walk_entry_def split: if_splits)
  with True show ?thesis
    by (auto simp: passes_filters_def)
next
  case False
  then have f: "passes_filters w opt rp e
                  = (only_type opt = DT_UNKNOWN \<or> only_type opt = d_type e)"
    by (auto simp: passes_filters_def)
  from False assms obtain b where pm: "perform_match w opt t (d_name e) = Inr b"
    by (cases "perform_match w opt t (d_name e)")
       (auto simp: walk_entry_def bind_halt_def Let_def split: if_splits)
  define s0 where "s0 = (if b \<and> (only_type opt = DT_UNKNOWN \<or> only_type opt = d_type e)
                        then process_match w (path_join parent l_parent (d_name e)) parent
                               (d_name e) opt s
                        else s)"
  have p: "stdout s0 = stdout s @
           (if passes_filters w opt rp e \<and> perform_match w opt t (d_name e) = Inr True
            then [printed_line w opt parent l_parent e] else [])"
    by (simp add: s0_def f pm process_match_def printed_line_def)
  show ?thesis
  proof (cases "d_type e = DT_DIR")
    case True
    with False assms pm have
      "bind_halt (child_repo w opt (path_join parent l_parent (d_name e)) rp
                    (mem (flagman_acquire s0)))
         (\<lambda>(currentrepo, h).
            bind_halt (queue_put (opt_q (flagman_acquire s0))
                         (Some (message_body_new (int_of_sum (dep + 1))
                                  (l_parent + length (d_name e) + 1)
                                  (path_join parent l_parent (d_name e)) currentrepo))
                         (size_t_of_int (int_of_sum (dep + 1))))
              (\<lambda>q1. Inr ((flagman_acquire s0)\<lparr>opt_q := q1, mem := h,
                       events := events (flagman_acquire s0) @
                         [EvPut (path_join parent l_parent (d_name e))
                            (size_t_of_int (int_of_sum (dep + 1)))]\<rparr>))) = Inr s1"
      by (auto simp: walk_entry_def bind_halt_Inr Let_def s0_def split: if_splits)
    from child_put_stdout [OF this] have "stdout s1 = stdout s0"
      by (simp add: flagman_acquire_def)
    with p show ?thesis by simp
  next
    case nd: False
    with False assms pm have "s1 = s0"
      by (auto simp: walk_entry_def bind_halt_Inr Let_def s0_def split: if_splits)
    with p show ?thesis by simp
  qed
qed

lemma walk_entries_stdout:
  assumes "walk_entries w opt t parent l_parent dep rp es s = Inr s1"
  shows "stdout s1 = stdout s @
           map (printed_line w opt parent l_parent)
             (filter (\<lambda>e. passes_filters w opt rp e
                           \<and> perform_match w opt t (d_name e) = Inr True) es)"
  using assms
proof (induction es arbitrary: s)
  case Nil
  then show ?case by simp
next
  case (Cons e es)
  from Cons.prems obtain s0 where
    e: "walk_entry w opt t parent l_parent dep rp e s = Inr s0"
    and r: "walk_entries w opt t parent l_parent dep rp es s0 = Inr s1"
    by (cases "walk_entry w opt t parent l_parent dep rp e s") (auto simp: bind_halt_def)
  from walk_entry_stdout [OF e] Cons.IH [OF r] show ?case
    by simp
qed

lemma walk_stdout:
  assumes "walk w opt t parent l_parent dep rp s = Inr s1"
  shows "stdout s1 = stdout s @
           walk_prints w opt parent l_parent dep
             (\<lambda>e. passes_filters w opt rp e \<and> perform_match w opt t (d_name e) = Inr True)"
proof (cases "max_depth opt > 0 \<and> dep \<ge> max_depth opt")
  case True
  with assms show ?thesis
    by (simp add: walk_def walk_prints_def)
next
  case False
  show ?thesis
  proof (cases "fs_dir w parent")
    case None
    with False assms show ?thesis
      by (auto simp: walk_def walk_prints_def)
  next
    case (Some es)
    with False assms have "walk_entries w opt t parent l_parent dep rp es s = Inr s1"
      by (auto simp: walk_def split: if_splits)
    from walk_entries_stdout [OF this] False Some show ?thesis
      by (auto simp: walk_prints_def)
  qed
qed

lemma walk_early:
  assumes "max_depth opt > 0 \<and> dep \<ge> max_depth opt \<or> fs_dir w parent = None"
  shows "walk w opt t parent l_parent dep rp s = Inr s"
  using assms by (auto simp: walk_def)

lemma free_shared_live:
  assumes "handle_live s h"
  shows "\<exists>h1. free_shared s h = Inr h1"
  using assms
  by (auto simp: free_shared_def handle_live_def split: option.splits)

section \<open>The order of the queue\<close>

text \<open>
  C2 (the code does not do what the claim says). The claim: \<^verbatim>\<open>queue_get\<close> returns an
  item of maximal priority first, and items of equal priority leave in the order in which
  they were put. The code: on a new queue, an item of priority 1 and then one of priority
  2 are put; the dequeues return the item of priority 1 first. Three items \<open>A\<close>,
  \<open>B\<close>, \<open>C\<close> of priority 1, put in this order, leave in the order \<open>A\<close>, \<open>C\<close>,
  \<open>B\<close>. \<^verbatim>\<open>queue_put\<close> stops its walk at the node \<^verbatim>\<open>q->tail\<close>, which it never
  moves from the first node, and links the new node behind the node where it stopped.
\<close>

theorem queue_get_not_by_priority:
  "bind_halt (put_all [(Some ''A'', 1), (Some ''B'', 2)] queue_new) (drain 2)
     = Inr [Some ''A'', Some ''B'']
   \<and> bind_halt (put_all [(Some ''A'', 1), (Some ''B'', 1), (Some ''C'', 1)] queue_new) (drain 3)
     = Inr [Some ''A'', Some ''C'', Some ''B'']"
  by (simp add: queue_new_def queue_put_def queue_get_def bind_halt_Inr Let_def
        numeral_3_eq_3 numeral_2_eq_2
      cong: bind_halt_weak_cong let_weak_cong)

section \<open>The argument of \<^verbatim>\<open>--type\<close>\<close>

text \<open>
  C8 (amended). The claim: every \<^verbatim>\<open>--type\<close> argument other than the seven
  one-character strings \<open>b\<close>, \<open>c\<close>, \<open>d\<close>, \<open>n\<close>, \<open>l\<close>, \<open>f\<close>, \<open>s\<close> makes the parse
  fail. The code switches on the first character of the argument only. Amended: when the
  options before it have been read without a return, a \<^verbatim>\<open>--type\<close> argument that is
  not empty makes \<^verbatim>\<open>main\<close> print the usage and return 1 when its first character is
  not one of the seven, whatever follows on the command line; when its first character is
  one of the seven the option is accepted and sets the type filter, whatever the rest of
  the argument is; the empty argument fails the assertion.
\<close>

theorem type_argument_first_character:
  assumes "getopt_loop w before
             \<lparr>p_opt = main_defaults tty nprocs opt0, p_errno = 0, p_stderr = []\<rparr> = Inr (None, st)"
  shows "(x \<notin> set ''bcdnlfs'' \<longrightarrow>
            main w tty nprocs opt0 (before @ (CHR ''t'', Some (x # xs)) # after) args sched
              = Inr (Exit 1 (p_stderr st @ [Usage (Some ''Invalid argument for --type'')])))
       \<and> (x \<in> set ''bcdnlfs'' \<longrightarrow>
            (\<exists>t. getopt_loop w (before @ [(CHR ''t'', Some (x # xs))])
                   \<lparr>p_opt = main_defaults tty nprocs opt0, p_errno = 0, p_stderr = []\<rparr>
                 = Inr (None, st\<lparr>p_opt := (p_opt st)\<lparr>only_type := t\<rparr>\<rparr>)))
       \<and> getopt_loop w (before @ [(CHR ''t'', Some [])])
            \<lparr>p_opt = main_defaults tty nprocs opt0, p_errno = 0, p_stderr = []\<rparr>
           = Inl AssertFail"
proof (intro conjI impI)
  assume "x \<notin> set ''bcdnlfs''"
  then have n: "type_of_char x = None" by (auto simp: type_of_char_def)
  have c: "getopt_case w (CHR ''t'') (Some (x # xs)) st
             = Inr (Some OPTIONS_FAILURE, print_usage (Some ''Invalid argument for --type'') st)"
    by (simp add: getopt_case_def n)
  show "main w tty nprocs opt0 (before @ (CHR ''t'', Some (x # xs)) # after) args sched
          = Inr (Exit 1 (p_stderr st @ [Usage (Some ''Invalid argument for --type'')]))"
    by (simp add: main_def parse_options_def getopt_loop_append assms bind_halt_Inr c
        print_usage_def)
next
  assume "x \<in> set ''bcdnlfs''"
  then obtain t where t: "type_of_char x = Some t" by (auto simp: type_of_char_def)
  have "getopt_case w (CHR ''t'') (Some (x # xs)) st
          = Inr (None, st\<lparr>p_opt := (p_opt st)\<lparr>only_type := t\<rparr>\<rparr>)"
    by (simp add: getopt_case_def t)
  then show "\<exists>t. getopt_loop w (before @ [(CHR ''t'', Some (x # xs))])
                   \<lparr>p_opt = main_defaults tty nprocs opt0, p_errno = 0, p_stderr = []\<rparr>
                 = Inr (None, st\<lparr>p_opt := (p_opt st)\<lparr>only_type := t\<rparr>\<rparr>)"
    by (intro exI [of _ t]) (simp add: getopt_loop_append assms bind_halt_Inr)
next
  show "getopt_loop w (before @ [(CHR ''t'', Some [])])
            \<lparr>p_opt = main_defaults tty nprocs opt0, p_errno = 0, p_stderr = []\<rparr>
           = Inl AssertFail"
    by (simp add: getopt_loop_append assms bind_halt_Inr bind_halt_Inl getopt_case_def)
qed

text \<open>
  The theorem at \<^verbatim>\<open>ff -H -t x-ray\<close>, which is rejected, and at
  \<^verbatim>\<open>ff -H -t file\<close>, which is accepted.
\<close>

theorem type_argument_first_character_witness:
  "main small_world False 1 raw_options [(CHR ''H'', None), (CHR ''t'', Some ''x-ray'')] [] []
     = Inr (Exit 1 [Usage (Some ''Invalid argument for --type'')])
   \<and> (\<exists>t. getopt_loop small_world [(CHR ''H'', None), (CHR ''t'', Some ''file'')]
            \<lparr>p_opt = main_defaults False 1 raw_options, p_errno = 0, p_stderr = []\<rparr>
          = Inr (None, \<lparr>p_opt = (main_defaults False 1 raw_options)
                                 \<lparr>skip_hidden := False, only_type := t\<rparr>,
                        p_errno = 0, p_stderr = []\<rparr>))"
proof -
  have h: "getopt_loop small_world [(CHR ''H'', None)]
             \<lparr>p_opt = main_defaults False 1 raw_options, p_errno = 0, p_stderr = []\<rparr>
           = Inr (None, \<lparr>p_opt = (main_defaults False 1 raw_options)\<lparr>skip_hidden := False\<rparr>,
                         p_errno = 0, p_stderr = []\<rparr>)"
    by (simp add: getopt_case_def bind_halt_Inr)
  from type_argument_first_character [OF h, of "CHR ''x''" "''-ray''" "[]" "[]" "[]"]
       type_argument_first_character [OF h, of "CHR ''f''" "''ile''" "[]" "[]" "[]"]
  show ?thesis by simp
qed

text \<open>
  C8 as stated fails at \<^verbatim>\<open>ff -t dir\<close>: the argument is none of the seven strings,
  the parse succeeds, and the type filter is that of \<open>d\<close>.
\<close>

theorem type_argument_dir_accepted:
  "(case main small_world False 1 raw_options [(CHR ''t'', Some ''dir'')] [] [] of
      Inr (Ran opt y) \<Rightarrow> Some (only_type opt)
    | _ \<Rightarrow> None) = Some DT_DIR"
  by (simp add: engine_defs world_defs bind_halt_Inl bind_halt_Inr Let_def
      cong: bind_halt_weak_cong let_weak_cong)

section \<open>The empty pattern\<close>

text \<open>
  C6 (amended). The claim: when the pattern is the empty string the mode is \<open>NONE\<close>,
  also with \<^verbatim>\<open>-g\<close>, so every entry that passes the other filters is emitted. The code
  leaves the mode alone when the pattern is empty, and \<^verbatim>\<open>-g\<close> has set it to
  \<open>GLOB\<close> before. Amended: for a run with the empty pattern, the mode is \<open>NONE\<close>
  when \<^verbatim>\<open>-g\<close> was not given, and then every name passes the match test; when
  \<^verbatim>\<open>-g\<close> was given the mode is \<open>GLOB\<close>, and a name passes the match test exactly
  when \<^verbatim>\<open>fnmatch\<close> accepts it for the empty pattern. With the matcher state that the
  workers set up, a walk of a directory that returns has printed, in the order of
  \<^verbatim>\<open>readdir\<close> and once each, the entries of the directory that pass the hidden, ignore
  and type filters (and, with \<^verbatim>\<open>-g\<close>, that \<^verbatim>\<open>fnmatch\<close> accepts for the empty
  pattern), and nothing beyond the depth limit; and the walk returns whenever the queue
  is well-formed, the parent's handle is live and the names are not empty. Which
  directories are walked is not part of this statement.
\<close>

theorem empty_pattern_mode:
  assumes "main w tty nprocs opt0 getopts ([] # rest) sched = Inr (Ran opt y)"
  shows "mode opt = (if CHR ''g'' \<in> fst ` set getopts then GLOB else NONE)
       \<and> (CHR ''g'' \<notin> fst ` set getopts \<longrightarrow> (\<forall>t name. perform_match w opt t name = Inr True))
       \<and> (CHR ''g'' \<in> fst ` set getopts \<longrightarrow>
            (\<exists>t. worker_tls opt = Inr t \<and>
                 (\<forall>name. perform_match w opt t name
                            = Inr (fnmatch w [] name (glob_flags t) = 0))))
       \<and> (\<exists>t. worker_tls opt = Inr t
             \<and> (\<forall>parent l_parent dep rp s s1.
                    walk w opt t parent l_parent dep rp s = Inr s1 \<longrightarrow>
                    stdout s1 = stdout s @
                      walk_prints w opt parent l_parent dep
                        (\<lambda>e. passes_filters w opt rp e
                              \<and> (CHR ''g'' \<in> fst ` set getopts \<longrightarrow>
                                   fnmatch w [] (d_name e)
                                     (if icase opt then FNM_CASEFOLD else 0) = 0)))
             \<and> (\<forall>parent l_parent dep rp s.
                    queue_ok (opt_q s) \<and> handle_live rp (mem s) \<and> names_ok (fs_dir w parent)
                    \<longrightarrow> (\<exists>s1. walk w opt t parent l_parent dep rp s = Inr s1)))"
proof -
  from main_ran [OF assms] obtain st where
    p: "parse_options w getopts ([] # rest)
          \<lparr>p_opt = main_defaults tty nprocs opt0, p_errno = 0, p_stderr = []\<rparr>
        = Inr (OPTIONS_SUCCESS, st)" and o: "opt = p_opt st"
    by blast
  from p obtain st1 pattern rest1 opt1 rs st2 where
    l: "getopt_loop w getopts
          \<lparr>p_opt = main_defaults tty nprocs opt0, p_errno = 0, p_stderr = []\<rparr> = Inr (None, st1)"
    and s: "scan_pattern ([] # rest) (p_opt st1) = (pattern, rest1, opt1)"
    and m: "p_opt st = set_matcher pattern (opt1\<lparr>roots := rs\<rparr>)"
    by (rule parse_options_success)
  from s have s1: "pattern = []" "opt1 = p_opt st1"
    by (simp_all add: scan_pattern_def)
  from getopt_loop_flags [OF l]
  have f: "mode (p_opt st1) = (if CHR ''g'' \<in> fst ` set getopts then GLOB else NONE)"
    by (simp add: main_defaults_def)
  have mo: "mode opt = (if CHR ''g'' \<in> fst ` set getopts then GLOB else NONE)"
    by (simp add: o m s1 f set_matcher_def)
  have ma: "CHR ''g'' \<in> fst ` set getopts \<Longrightarrow> match opt = Pattern []"
    by (simp add: o m s1 f set_matcher_def)
  from mo ma have ms: "matcher_set opt"
    by (simp add: matcher_set_def)
  from mo ma
  have "\<exists>t. worker_tls opt = Inr t
          \<and> (\<forall>name. perform_match w opt t name
                 = Inr (CHR ''g'' \<in> fst ` set getopts \<longrightarrow>
                          fnmatch w [] name (if icase opt then FNM_CASEFOLD else 0) = 0))"
    by (cases "CHR ''g'' \<in> fst ` set getopts")
       (simp_all add: worker_tls_def perform_match_def)
  then obtain t where t: "worker_tls opt = Inr t"
    and pm: "\<And>name. perform_match w opt t name
               = Inr (CHR ''g'' \<in> fst ` set getopts \<longrightarrow>
                        fnmatch w [] name (if icase opt then FNM_CASEFOLD else 0) = 0)"
    by blast
  have pr: "stdout s1 = stdout s @
              walk_prints w opt parent l_parent dep
                (\<lambda>e. passes_filters w opt rp e
                      \<and> (CHR ''g'' \<in> fst ` set getopts \<longrightarrow>
                           fnmatch w [] (d_name e) (if icase opt then FNM_CASEFOLD else 0) = 0))"
    if "walk w opt t parent l_parent dep rp s = Inr s1" for parent l_parent dep rp s s1
    using walk_stdout [OF that] by (simp add: pm)
  have tot: "\<exists>s1. walk w opt t parent l_parent dep rp s = Inr s1"
    if "queue_ok (opt_q s)" "handle_live rp (mem s)" "names_ok (fs_dir w parent)"
    for parent l_parent dep rp s
    using walk_ok [OF that ms t] by (auto simp: returns_iff)
  show ?thesis
  proof (intro conjI impI allI)
    show "mode opt = (if CHR ''g'' \<in> fst ` set getopts then GLOB else NONE)" by (rule mo)
  next
    fix t name
    assume "CHR ''g'' \<notin> fst ` set getopts"
    with mo show "perform_match w opt t name = Inr True"
      by (simp add: perform_match_def)
  next
    assume g: "CHR ''g'' \<in> fst ` set getopts"
    with mo ma show "\<exists>t. worker_tls opt = Inr t \<and>
                 (\<forall>name. perform_match w opt t name
                            = Inr (fnmatch w [] name (glob_flags t) = 0))"
      by (simp add: worker_tls_def perform_match_def)
  next
    from t pr tot show "\<exists>t. worker_tls opt = Inr t
             \<and> (\<forall>parent l_parent dep rp s s1.
                    walk w opt t parent l_parent dep rp s = Inr s1 \<longrightarrow>
                    stdout s1 = stdout s @
                      walk_prints w opt parent l_parent dep
                        (\<lambda>e. passes_filters w opt rp e
                              \<and> (CHR ''g'' \<in> fst ` set getopts \<longrightarrow>
                                   fnmatch w [] (d_name e)
                                     (if icase opt then FNM_CASEFOLD else 0) = 0)))
             \<and> (\<forall>parent l_parent dep rp s.
                    queue_ok (opt_q s) \<and> handle_live rp (mem s) \<and> names_ok (fs_dir w parent)
                    \<longrightarrow> (\<exists>s1. walk w opt t parent l_parent dep rp s = Inr s1))"
      by blast
  qed
qed

text \<open>
  The theorem at \<^verbatim>\<open>ff -j 1 "" t\<close>, run to its end with one worker: the mode is
  \<open>NONE\<close>, the name \<open>README\<close> passes the match test, and the file is printed; a
  walk of \<open>t\<close> with the workers' matcher state returns and prints \<open>t/README\<close>.
\<close>

theorem empty_pattern_mode_witness:
  "\<exists>opt y s1.
      main small_world False 1 raw_options [(CHR ''j'', Some ''1'')] ['''', ''t'']
        [MainThread, WorkerThread 0, MainThread, MainThread, WorkerThread 0, MainThread]
        = Inr (Ran opt y)
      \<and> mode opt = NONE
      \<and> perform_match small_world opt
          \<lparr>re = None, extra = None, glob_pattern = None, glob_flags = 0\<rparr> ''README'' = Inr True
      \<and> main_at y = Returned 0 \<and> stdout (shared y) = [''t/README'']
      \<and> walk small_world opt \<lparr>re = None, extra = None, glob_pattern = None, glob_flags = 0\<rparr>
          ''t'' 1 0 \<lparr>ptr = None, refcnt = Some 0\<rparr>
          \<lparr>opt_q = queue_new, flagman_lock = 1,
           mem = heap_new\<lparr>cells := (\<lambda>a. None)(0 \<mapsto> 1), next_cell := 1\<rparr>,
           stdout = [], events = []\<rparr> = Inr s1
      \<and> stdout s1 = [''t/README'']"
proof -
  let ?T = "\<lparr>re = None, extra = None, glob_pattern = None, glob_flags = 0\<rparr>"
  let ?RP = "\<lparr>ptr = None, refcnt = Some 0\<rparr>"
  let ?S = "\<lparr>opt_q = queue_new, flagman_lock = 1,
             mem = heap_new\<lparr>cells := (\<lambda>a. None)(0 \<mapsto> 1), next_cell := 1\<rparr>,
             stdout = [], events = []\<rparr>"
  have "\<exists>opt y. main small_world False 1 raw_options [(CHR ''j'', Some ''1'')] ['''', ''t'']
          [MainThread, WorkerThread 0, MainThread, MainThread, WorkerThread 0, MainThread]
            = Inr (Ran opt y) \<and> main_at y = Returned 0 \<and> stdout (shared y) = [''t/README'']
          \<and> walk_prints small_world opt ''t'' 1 0 (passes_filters small_world opt ?RP)
              = [''t/README'']"
    by (simp add: engine_defs world_defs print_defs bind_halt_Inl bind_halt_Inr Let_def
        cong: bind_halt_weak_cong let_weak_cong)
  then obtain opt y where
    m: "main small_world False 1 raw_options [(CHR ''j'', Some ''1'')] ['''', ''t'']
          [MainThread, WorkerThread 0, MainThread, MainThread, WorkerThread 0, MainThread]
            = Inr (Ran opt y)"
    and y: "main_at y = Returned 0" "stdout (shared y) = [''t/README'']"
    and p: "walk_prints small_world opt ''t'' 1 0 (passes_filters small_world opt ?RP)
              = [''t/README'']"
    by blast
  note th = empty_pattern_mode [OF m]
  from th have mo: "mode opt = NONE" by simp
  then have t: "worker_tls opt = Inr ?T" by (simp add: worker_tls_def)
  from th have pm: "perform_match small_world opt ?T ''README'' = Inr True" by simp
  have side: "queue_ok (opt_q ?S) \<and> handle_live ?RP (mem ?S)
                \<and> names_ok (fs_dir small_world ''t'')"
    by (simp add: queue_ok_def queue_new_def handle_live_def heap_new_def names_ok_def
        small_world_def dots_def)
  from th t
  have a: "\<forall>parent l_parent dep rp s s1.
             walk small_world opt ?T parent l_parent dep rp s = Inr s1 \<longrightarrow>
             stdout s1 = stdout s @
               walk_prints small_world opt parent l_parent dep (passes_filters small_world opt rp)"
    and b: "\<forall>parent l_parent dep rp s.
             queue_ok (opt_q s) \<and> handle_live rp (mem s) \<and> names_ok (fs_dir small_world parent)
             \<longrightarrow> (\<exists>s1. walk small_world opt ?T parent l_parent dep rp s = Inr s1)"
    by auto
  from b side obtain s1 where
    w: "walk small_world opt ?T ''t'' 1 0 ?RP ?S = Inr s1"
    by blast
  from a w have "stdout s1 = stdout ?S @
      walk_prints small_world opt ''t'' 1 0 (passes_filters small_world opt ?RP)"
    by blast
  with p have "stdout s1 = [''t/README'']" by simp
  with m mo pm y w show ?thesis by blast
qed

text \<open>
  C6 as stated fails at \<^verbatim>\<open>ff -g -j 1 "" t\<close>, run to its end with one worker: the
  mode is \<open>GLOB\<close> and the file \<open>t/README\<close>, which no other filter holds back, is
  not printed.
\<close>

theorem empty_glob_pattern_emits_nothing:
  "(case main small_world False 1 raw_options [(CHR ''g'', None), (CHR ''j'', Some ''1'')]
          ['''', ''t'']
          [MainThread, WorkerThread 0, MainThread, MainThread, WorkerThread 0, MainThread] of
      Inr (Ran opt y) \<Rightarrow> Some (mode opt, main_at y, stdout (shared y))
    | _ \<Rightarrow> None)
   = Some (GLOB, Returned 0, [])"
  by (simp add: engine_defs world_defs bind_halt_Inl bind_halt_Inr Let_def
      cong: bind_halt_weak_cong let_weak_cong)

section \<open>The option \<^verbatim>\<open>--ignore-case\<close>\<close>

text \<open>
  C7 (amended). The claim: \<^verbatim>\<open>icase\<close> affects glob matching only, and the results of
  the regex are the same with and without it. The code passes \<^verbatim>\<open>opt->icase\<close> to
  \<^verbatim>\<open>regex_compile\<close> as well. Amended: for a run, \<^verbatim>\<open>icase\<close> is set exactly when
  \<^verbatim>\<open>-i\<close> was given. The workers set up their matcher state without a fault. With
  it, the match test of the walker for a name is, in the mode \<open>REGEX\<close>, whether
  \<^verbatim>\<open>pcre_jit_exec\<close> succeeds for the pattern compiled with the case-fold flag equal to
  \<^verbatim>\<open>icase\<close>, and in the mode \<open>GLOB\<close>, whether \<^verbatim>\<open>fnmatch\<close> accepts the name for
  the pattern with the flags \<^verbatim>\<open>FNM_CASEFOLD\<close> when \<^verbatim>\<open>icase\<close> is set and 0 when it
  is not. A walk of a directory that returns has printed exactly the entries that pass
  the hidden, ignore and type filters and this match test, and the walk returns whenever
  the queue is well-formed, the parent's handle is live and the names are not empty.
\<close>

theorem icase_reaches_both_matchers:
  assumes "main w tty nprocs opt0 getopts args sched = Inr (Ran opt y)"
  shows "icase opt = (CHR ''i'' \<in> fst ` set getopts)
       \<and> (mode opt = REGEX \<longrightarrow>
            worker_tls opt = Inr \<lparr>re = None, extra = Some (regex_compile (hd args) (icase opt)),
                                  glob_pattern = None, glob_flags = 0\<rparr>)
       \<and> (mode opt = GLOB \<longrightarrow>
            worker_tls opt = Inr \<lparr>re = None, extra = None, glob_pattern = Some (hd args),
                                  glob_flags = (if icase opt then FNM_CASEFOLD else 0)\<rparr>)
       \<and> (\<exists>t. worker_tls opt = Inr t
             \<and> (\<forall>name. perform_match w opt t name
                         = Inr (case mode opt of
                                  REGEX \<Rightarrow> 0 < pcre_jit_exec w
                                                 (regex_compile (hd args) (icase opt)) name
                                | GLOB \<Rightarrow> fnmatch w (hd args) name
                                            (if icase opt then FNM_CASEFOLD else 0) = 0
                                | NONE \<Rightarrow> True))
             \<and> (\<forall>parent l_parent dep rp s s1.
                    walk w opt t parent l_parent dep rp s = Inr s1 \<longrightarrow>
                    stdout s1 = stdout s @
                      walk_prints w opt parent l_parent dep
                        (\<lambda>e. passes_filters w opt rp e
                              \<and> (case mode opt of
                                   REGEX \<Rightarrow> 0 < pcre_jit_exec w
                                                  (regex_compile (hd args) (icase opt))
                                                  (d_name e)
                                 | GLOB \<Rightarrow> fnmatch w (hd args) (d_name e)
                                             (if icase opt then FNM_CASEFOLD else 0) = 0
                                 | NONE \<Rightarrow> True)))
             \<and> (\<forall>parent l_parent dep rp s.
                    queue_ok (opt_q s) \<and> handle_live rp (mem s) \<and> names_ok (fs_dir w parent)
                    \<longrightarrow> (\<exists>s1. walk w opt t parent l_parent dep rp s = Inr s1)))"
proof -
  from main_ran [OF assms] obtain st where
    p: "parse_options w getopts args
          \<lparr>p_opt = main_defaults tty nprocs opt0, p_errno = 0, p_stderr = []\<rparr>
        = Inr (OPTIONS_SUCCESS, st)" and o: "opt = p_opt st"
    by blast
  from p obtain st1 pattern rest1 opt1 rs st2 where
    l: "getopt_loop w getopts
          \<lparr>p_opt = main_defaults tty nprocs opt0, p_errno = 0, p_stderr = []\<rparr> = Inr (None, st1)"
    and s: "scan_pattern args (p_opt st1) = (pattern, rest1, opt1)"
    and m: "p_opt st = set_matcher pattern (opt1\<lparr>roots := rs\<rparr>)"
    by (rule parse_options_success)
  from getopt_loop_flags [OF l]
  have f: "icase (p_opt st1) = (CHR ''i'' \<in> fst ` set getopts)"
    by (simp add: main_defaults_def)
  from s have i1: "icase opt1 = icase (p_opt st1)"
    by (auto simp: scan_pattern_def split: list.splits if_splits)
  from s have s2: "mode opt1 \<noteq> NONE \<Longrightarrow> pattern = hd args"
    by (auto simp: scan_pattern_def split: list.splits if_splits)
  have old: "icase opt = (CHR ''i'' \<in> fst ` set getopts)
       \<and> (mode opt = REGEX \<longrightarrow>
            worker_tls opt = Inr \<lparr>re = None, extra = Some (regex_compile (hd args) (icase opt)),
                                  glob_pattern = None, glob_flags = 0\<rparr>)
       \<and> (mode opt = GLOB \<longrightarrow>
            worker_tls opt = Inr \<lparr>re = None, extra = None, glob_pattern = Some (hd args),
                                  glob_flags = (if icase opt then FNM_CASEFOLD else 0)\<rparr>)"
    using f i1 s2
    by (cases "mode opt1")
       (simp_all add: o m set_matcher_def worker_tls_def)
  have ms: "matcher_set opt"
    by (cases "mode opt1") (simp_all add: o m set_matcher_def matcher_set_def)
  have "\<exists>t. worker_tls opt = Inr t
          \<and> (\<forall>name. perform_match w opt t name
                         = Inr (case mode opt of
                                  REGEX \<Rightarrow> 0 < pcre_jit_exec w
                                                 (regex_compile (hd args) (icase opt)) name
                                | GLOB \<Rightarrow> fnmatch w (hd args) name
                                            (if icase opt then FNM_CASEFOLD else 0) = 0
                                | NONE \<Rightarrow> True))"
    using s2
    by (cases "mode opt1")
       (simp_all add: o m set_matcher_def worker_tls_def perform_match_def)
  then obtain t where t: "worker_tls opt = Inr t"
    and pm: "\<And>name. perform_match w opt t name
                         = Inr (case mode opt of
                                  REGEX \<Rightarrow> 0 < pcre_jit_exec w
                                                 (regex_compile (hd args) (icase opt)) name
                                | GLOB \<Rightarrow> fnmatch w (hd args) name
                                            (if icase opt then FNM_CASEFOLD else 0) = 0
                                | NONE \<Rightarrow> True)"
    by blast
  have pr: "stdout s1 = stdout s @
              walk_prints w opt parent l_parent dep
                (\<lambda>e. passes_filters w opt rp e
                      \<and> (case mode opt of
                           REGEX \<Rightarrow> 0 < pcre_jit_exec w
                                          (regex_compile (hd args) (icase opt)) (d_name e)
                         | GLOB \<Rightarrow> fnmatch w (hd args) (d_name e)
                                     (if icase opt then FNM_CASEFOLD else 0) = 0
                         | NONE \<Rightarrow> True))"
    if "walk w opt t parent l_parent dep rp s = Inr s1" for parent l_parent dep rp s s1
    using walk_stdout [OF that] by (simp add: pm)
  have tot: "\<exists>s1. walk w opt t parent l_parent dep rp s = Inr s1"
    if "queue_ok (opt_q s)" "handle_live rp (mem s)" "names_ok (fs_dir w parent)"
    for parent l_parent dep rp s
    using walk_ok [OF that ms t] by (auto simp: returns_iff)
  from t pm pr tot have new: "\<exists>t. worker_tls opt = Inr t
             \<and> (\<forall>name. perform_match w opt t name
                         = Inr (case mode opt of
                                  REGEX \<Rightarrow> 0 < pcre_jit_exec w
                                                 (regex_compile (hd args) (icase opt)) name
                                | GLOB \<Rightarrow> fnmatch w (hd args) name
                                            (if icase opt then FNM_CASEFOLD else 0) = 0
                                | NONE \<Rightarrow> True))
             \<and> (\<forall>parent l_parent dep rp s s1.
                    walk w opt t parent l_parent dep rp s = Inr s1 \<longrightarrow>
                    stdout s1 = stdout s @
                      walk_prints w opt parent l_parent dep
                        (\<lambda>e. passes_filters w opt rp e
                              \<and> (case mode opt of
                                   REGEX \<Rightarrow> 0 < pcre_jit_exec w
                                                  (regex_compile (hd args) (icase opt))
                                                  (d_name e)
                                 | GLOB \<Rightarrow> fnmatch w (hd args) (d_name e)
                                             (if icase opt then FNM_CASEFOLD else 0) = 0
                                 | NONE \<Rightarrow> True)))
             \<and> (\<forall>parent l_parent dep rp s.
                    queue_ok (opt_q s) \<and> handle_live rp (mem s) \<and> names_ok (fs_dir w parent)
                    \<longrightarrow> (\<exists>s1. walk w opt t parent l_parent dep rp s = Inr s1))"
    by blast
  from old new show ?thesis by blast
qed

text \<open>
  The theorem at \<^verbatim>\<open>ff -i -j 1 readme t\<close>, at \<^verbatim>\<open>ff -g -i -j 1 readme t\<close> and at
  \<^verbatim>\<open>ff -g -j 1 readme t\<close>, each run to its end with one worker: the first two print
  \<open>t/README\<close>, as does a walk of \<open>t\<close> with the workers' matcher state, and the
  third, whose \<^verbatim>\<open>fnmatch\<close> gets no flag, prints nothing.
\<close>

theorem icase_reaches_both_matchers_witness:
  "(\<exists>opt y s1.
      main small_world False 1 raw_options [(CHR ''i'', None), (CHR ''j'', Some ''1'')]
        [''readme'', ''t'']
        [MainThread, WorkerThread 0, MainThread, MainThread, WorkerThread 0, MainThread]
        = Inr (Ran opt y)
      \<and> icase opt \<and> mode opt = REGEX \<and> stdout (shared y) = [''t/README'']
      \<and> worker_tls opt = Inr \<lparr>re = None, extra = Some (regex_compile ''readme'' True),
                              glob_pattern = None, glob_flags = 0\<rparr>
      \<and> walk small_world opt
          \<lparr>re = None, extra = Some (regex_compile ''readme'' True),
           glob_pattern = None, glob_flags = 0\<rparr>
          ''t'' 1 0 \<lparr>ptr = None, refcnt = Some 0\<rparr>
          \<lparr>opt_q = queue_new, flagman_lock = 1,
           mem = heap_new\<lparr>cells := (\<lambda>a. None)(0 \<mapsto> 1), next_cell := 1\<rparr>,
           stdout = [], events = []\<rparr> = Inr s1
      \<and> stdout s1 = [''t/README''])
   \<and> (\<exists>opt y s1.
      main small_world False 1 raw_options
        [(CHR ''g'', None), (CHR ''i'', None), (CHR ''j'', Some ''1'')]
        [''readme'', ''t'']
        [MainThread, WorkerThread 0, MainThread, MainThread, WorkerThread 0, MainThread]
        = Inr (Ran opt y)
      \<and> icase opt \<and> mode opt = GLOB \<and> stdout (shared y) = [''t/README'']
      \<and> worker_tls opt = Inr \<lparr>re = None, extra = None, glob_pattern = Some ''readme'',
                              glob_flags = FNM_CASEFOLD\<rparr>
      \<and> walk small_world opt
          \<lparr>re = None, extra = None, glob_pattern = Some ''readme'',
           glob_flags = FNM_CASEFOLD\<rparr>
          ''t'' 1 0 \<lparr>ptr = None, refcnt = Some 0\<rparr>
          \<lparr>opt_q = queue_new, flagman_lock = 1,
           mem = heap_new\<lparr>cells := (\<lambda>a. None)(0 \<mapsto> 1), next_cell := 1\<rparr>,
           stdout = [], events = []\<rparr> = Inr s1
      \<and> stdout s1 = [''t/README''])
   \<and> (\<exists>opt y.
      main small_world False 1 raw_options [(CHR ''g'', None), (CHR ''j'', Some ''1'')]
        [''readme'', ''t'']
        [MainThread, WorkerThread 0, MainThread, MainThread, WorkerThread 0, MainThread]
        = Inr (Ran opt y)
      \<and> \<not> icase opt \<and> mode opt = GLOB \<and> stdout (shared y) = []
      \<and> worker_tls opt = Inr \<lparr>re = None, extra = None, glob_pattern = Some ''readme'',
                              glob_flags = 0\<rparr>)"
proof -
  let ?RP = "\<lparr>ptr = None, refcnt = Some 0\<rparr>"
  let ?S = "\<lparr>opt_q = queue_new, flagman_lock = 1,
             mem = heap_new\<lparr>cells := (\<lambda>a. None)(0 \<mapsto> 1), next_cell := 1\<rparr>,
             stdout = [], events = []\<rparr>"
  let ?TR = "\<lparr>re = None, extra = Some (regex_compile ''readme'' True),
              glob_pattern = None, glob_flags = 0\<rparr>"
  let ?TG = "\<lparr>re = None, extra = None, glob_pattern = Some ''readme'',
              glob_flags = FNM_CASEFOLD\<rparr>"
  have side: "queue_ok (opt_q ?S) \<and> handle_live ?RP (mem ?S)
                \<and> names_ok (fs_dir small_world ''t'')"
    by (simp add: queue_ok_def queue_new_def handle_live_def heap_new_def names_ok_def
        small_world_def dots_def)
  have "\<exists>opt y. main small_world False 1 raw_options [(CHR ''i'', None), (CHR ''j'', Some ''1'')]
          [''readme'', ''t'']
          [MainThread, WorkerThread 0, MainThread, MainThread, WorkerThread 0, MainThread]
            = Inr (Ran opt y) \<and> mode opt = REGEX \<and> icase opt
          \<and> stdout (shared y) = [''t/README'']
          \<and> walk_prints small_world opt ''t'' 1 0
              (\<lambda>e. passes_filters small_world opt ?RP e
                    \<and> 0 < pcre_jit_exec small_world (regex_compile ''readme'' True) (d_name e))
              = [''t/README'']"
    by (simp add: engine_defs world_defs print_defs bind_halt_Inl bind_halt_Inr Let_def
        cong: bind_halt_weak_cong let_weak_cong)
  then obtain opt1 y1 where
    r: "main small_world False 1 raw_options [(CHR ''i'', None), (CHR ''j'', Some ''1'')]
          [''readme'', ''t'']
          [MainThread, WorkerThread 0, MainThread, MainThread, WorkerThread 0, MainThread]
            = Inr (Ran opt1 y1)"
    and r1: "mode opt1 = REGEX" "icase opt1" "stdout (shared y1) = [''t/README'']"
    and rp: "walk_prints small_world opt1 ''t'' 1 0
              (\<lambda>e. passes_filters small_world opt1 ?RP e
                    \<and> 0 < pcre_jit_exec small_world (regex_compile ''readme'' True) (d_name e))
              = [''t/README'']"
    by blast
  have "\<exists>opt y. main small_world False 1 raw_options
          [(CHR ''g'', None), (CHR ''i'', None), (CHR ''j'', Some ''1'')]
          [''readme'', ''t'']
          [MainThread, WorkerThread 0, MainThread, MainThread, WorkerThread 0, MainThread]
            = Inr (Ran opt y) \<and> mode opt = GLOB \<and> icase opt
          \<and> stdout (shared y) = [''t/README'']
          \<and> walk_prints small_world opt ''t'' 1 0
              (\<lambda>e. passes_filters small_world opt ?RP e
                    \<and> fnmatch small_world ''readme'' (d_name e) FNM_CASEFOLD = 0)
              = [''t/README'']"
    by (simp add: engine_defs world_defs print_defs bind_halt_Inl bind_halt_Inr Let_def
        cong: bind_halt_weak_cong let_weak_cong)
  then obtain opt2 y2 where
    g: "main small_world False 1 raw_options
          [(CHR ''g'', None), (CHR ''i'', None), (CHR ''j'', Some ''1'')]
          [''readme'', ''t'']
          [MainThread, WorkerThread 0, MainThread, MainThread, WorkerThread 0, MainThread]
            = Inr (Ran opt2 y2)"
    and g1: "mode opt2 = GLOB" "icase opt2" "stdout (shared y2) = [''t/README'']"
    and gp: "walk_prints small_world opt2 ''t'' 1 0
              (\<lambda>e. passes_filters small_world opt2 ?RP e
                    \<and> fnmatch small_world ''readme'' (d_name e) FNM_CASEFOLD = 0)
              = [''t/README'']"
    by blast
  note thr = icase_reaches_both_matchers [OF r]
  from thr r1 have tr: "worker_tls opt1 = Inr ?TR" by simp
  from thr tr r1
  have ar: "\<forall>parent l_parent dep rp s s1.
             walk small_world opt1 ?TR parent l_parent dep rp s = Inr s1 \<longrightarrow>
             stdout s1 = stdout s @
               walk_prints small_world opt1 parent l_parent dep
                 (\<lambda>e. passes_filters small_world opt1 rp e
                       \<and> 0 < pcre_jit_exec small_world (regex_compile ''readme'' True)
                               (d_name e))"
    and br: "\<forall>parent l_parent dep rp s.
             queue_ok (opt_q s) \<and> handle_live rp (mem s) \<and> names_ok (fs_dir small_world parent)
             \<longrightarrow> (\<exists>s1. walk small_world opt1 ?TR parent l_parent dep rp s = Inr s1)"
    by auto
  from br side obtain s1 where
    wr: "walk small_world opt1 ?TR ''t'' 1 0 ?RP ?S = Inr s1"
    by blast
  from ar wr have "stdout s1 = stdout ?S @
      walk_prints small_world opt1 ''t'' 1 0
        (\<lambda>e. passes_filters small_world opt1 ?RP e
              \<and> 0 < pcre_jit_exec small_world (regex_compile ''readme'' True) (d_name e))"
    by blast
  with rp have sr: "stdout s1 = [''t/README'']" by simp
  note thg = icase_reaches_both_matchers [OF g]
  from thg g1 have tg: "worker_tls opt2 = Inr ?TG" by simp
  from thg tg g1
  have ag: "\<forall>parent l_parent dep rp s s1.
             walk small_world opt2 ?TG parent l_parent dep rp s = Inr s1 \<longrightarrow>
             stdout s1 = stdout s @
               walk_prints small_world opt2 parent l_parent dep
                 (\<lambda>e. passes_filters small_world opt2 rp e
                       \<and> fnmatch small_world ''readme'' (d_name e) FNM_CASEFOLD = 0)"
    and bg: "\<forall>parent l_parent dep rp s.
             queue_ok (opt_q s) \<and> handle_live rp (mem s) \<and> names_ok (fs_dir small_world parent)
             \<longrightarrow> (\<exists>s1. walk small_world opt2 ?TG parent l_parent dep rp s = Inr s1)"
    by auto
  from bg side obtain s2 where
    wg: "walk small_world opt2 ?TG ''t'' 1 0 ?RP ?S = Inr s2"
    by blast
  from ag wg have "stdout s2 = stdout ?S @
      walk_prints small_world opt2 ''t'' 1 0
        (\<lambda>e. passes_filters small_world opt2 ?RP e
              \<and> fnmatch small_world ''readme'' (d_name e) FNM_CASEFOLD = 0)"
    by blast
  with gp have sg: "stdout s2 = [''t/README'']" by simp
  have "\<exists>opt y. main small_world False 1 raw_options
          [(CHR ''g'', None), (CHR ''j'', Some ''1'')]
          [''readme'', ''t'']
          [MainThread, WorkerThread 0, MainThread, MainThread, WorkerThread 0, MainThread]
            = Inr (Ran opt y) \<and> mode opt = GLOB \<and> stdout (shared y) = []"
    by (simp add: engine_defs world_defs bind_halt_Inl bind_halt_Inr Let_def
        cong: bind_halt_weak_cong let_weak_cong)
  then obtain opt3 y3 where
    n: "main small_world False 1 raw_options
          [(CHR ''g'', None), (CHR ''j'', Some ''1'')]
          [''readme'', ''t'']
          [MainThread, WorkerThread 0, MainThread, MainThread, WorkerThread 0, MainThread]
            = Inr (Ran opt3 y3)"
    and n1: "mode opt3 = GLOB" "stdout (shared y3) = []"
    by blast
  note thn = icase_reaches_both_matchers [OF n]
  from thn have n2: "\<not> icase opt3" by simp
  from thn n1 n2 have tn: "worker_tls opt3 = Inr \<lparr>re = None, extra = None,
      glob_pattern = Some ''readme'', glob_flags = 0\<rparr>"
    by simp
  from n n1 n2 tn
  have third: "\<exists>opt y.
      main small_world False 1 raw_options [(CHR ''g'', None), (CHR ''j'', Some ''1'')]
        [''readme'', ''t'']
        [MainThread, WorkerThread 0, MainThread, MainThread, WorkerThread 0, MainThread]
        = Inr (Ran opt y)
      \<and> \<not> icase opt \<and> mode opt = GLOB \<and> stdout (shared y) = []
      \<and> worker_tls opt = Inr \<lparr>re = None, extra = None, glob_pattern = Some ''readme'',
                              glob_flags = 0\<rparr>"
    by blast
  from r r1 tr wr sr
  have first: "\<exists>opt y s1.
      main small_world False 1 raw_options [(CHR ''i'', None), (CHR ''j'', Some ''1'')]
        [''readme'', ''t'']
        [MainThread, WorkerThread 0, MainThread, MainThread, WorkerThread 0, MainThread]
        = Inr (Ran opt y)
      \<and> icase opt \<and> mode opt = REGEX \<and> stdout (shared y) = [''t/README'']
      \<and> worker_tls opt = Inr ?TR
      \<and> walk small_world opt ?TR ''t'' 1 0 ?RP ?S = Inr s1
      \<and> stdout s1 = [''t/README'']"
    by blast
  from g g1 tg wg sg
  have second: "\<exists>opt y s1.
      main small_world False 1 raw_options
        [(CHR ''g'', None), (CHR ''i'', None), (CHR ''j'', Some ''1'')]
        [''readme'', ''t'']
        [MainThread, WorkerThread 0, MainThread, MainThread, WorkerThread 0, MainThread]
        = Inr (Ran opt y)
      \<and> icase opt \<and> mode opt = GLOB \<and> stdout (shared y) = [''t/README'']
      \<and> worker_tls opt = Inr ?TG
      \<and> walk small_world opt ?TG ''t'' 1 0 ?RP ?S = Inr s1
      \<and> stdout s1 = [''t/README'']"
    by blast
  from first second third show ?thesis by (intro conjI)
qed

text \<open>
  C7 as stated fails for the regex \<open>readme\<close> and the name \<open>README\<close>:
  \<^verbatim>\<open>ff -i -j 1 readme t\<close> prints \<open>t/README\<close>, and \<^verbatim>\<open>ff -j 1 readme t\<close> prints
  nothing.
\<close>

theorem ignore_case_changes_regex_result:
  "(case main small_world False 1 raw_options [(CHR ''i'', None), (CHR ''j'', Some ''1'')]
          [''readme'', ''t'']
          [MainThread, WorkerThread 0, MainThread, MainThread, WorkerThread 0, MainThread] of
      Inr (Ran opt y) \<Rightarrow> Some (mode opt, main_at y, stdout (shared y))
    | _ \<Rightarrow> None)
   = Some (REGEX, Returned 0, [''t/README''])
   \<and> (case main small_world False 1 raw_options [(CHR ''j'', Some ''1'')]
          [''readme'', ''t'']
          [MainThread, WorkerThread 0, MainThread, MainThread, WorkerThread 0, MainThread] of
      Inr (Ran opt y) \<Rightarrow> Some (mode opt, main_at y, stdout (shared y))
    | _ \<Rightarrow> None)
   = Some (REGEX, Returned 0, [])"
  by (simp add: engine_defs world_defs bind_halt_Inl bind_halt_Inr Let_def
      cong: bind_halt_weak_cong let_weak_cong)

section \<open>Releasing a handle that has no referent\<close>

text \<open>
  C9 (amended). The claim: releasing a handle with no referent is a no-op that frees
  nothing and changes no state, and such a handle costs nothing. In the code a handle
  with no referent still owns a counter that \<^verbatim>\<open>make_shared\<close> allocated. Amended:
  \<^verbatim>\<open>make_shared(NULL)\<close> allocates a counter set to 1; releasing a handle with no
  referent decrements its counter, and when the counter reaches zero the counter is freed
  and \<^verbatim>\<open>git_repository_free\<close> is called with \<^verbatim>\<open>NULL\<close>, so that no repository is
  freed; releasing a handle that has no counter fails the assertion.
\<close>

theorem release_with_no_referent:
  "(refcnt s = None \<longrightarrow> free_shared s h = Inl AssertFail)
   \<and> (ptr s = None \<and> refcnt s = Some a \<and> cells h a = Some c \<longrightarrow>
        free_shared s h =
          Inr (if c = 1
               then h\<lparr>cells := (cells h)(a := None), git_freed := git_freed h @ [None]\<rparr>
               else h\<lparr>cells := (cells h)(a \<mapsto> c - 1)\<rparr>))
   \<and> fst (make_shared None h) = \<lparr>ptr = None, refcnt = Some (next_cell h)\<rparr>
   \<and> cells (snd (make_shared None h)) (next_cell h) = Some 1"
  by (simp add: free_shared_def make_shared_def)

text \<open>
  The theorem at a handle without a counter, and at a handle with no referent whose
  counter is 2.
\<close>

theorem release_with_no_referent_witness:
  "free_shared \<lparr>ptr = None, refcnt = None\<rparr> heap_new = Inl AssertFail
   \<and> free_shared \<lparr>ptr = None, refcnt = Some 0\<rparr> (heap_new\<lparr>cells := (\<lambda>a. None)(0 \<mapsto> 2)\<rparr>)
       = Inr (heap_new\<lparr>cells := (\<lambda>a. None)(0 \<mapsto> 1)\<rparr>)"
  using release_with_no_referent [of "\<lparr>ptr = None, refcnt = None\<rparr>" heap_new 0 0]
    release_with_no_referent [of "\<lparr>ptr = None, refcnt = Some 0\<rparr>"
      "heap_new\<lparr>cells := (\<lambda>a. None)(0 \<mapsto> 2)\<rparr>" 0 2]
  by (simp add: heap_new_def)

text \<open>
  C9 as stated fails at the handle that \<^verbatim>\<open>make_shared(NULL)\<close> makes on a new heap:
  its release frees the counter cell at address 0 and calls \<^verbatim>\<open>git_repository_free\<close>.
\<close>

theorem release_with_no_referent_frees:
  "fst (make_shared None heap_new) = \<lparr>ptr = None, refcnt = Some 0\<rparr>
   \<and> cells (snd (make_shared None heap_new)) 0 = Some 1
   \<and> (case free_shared (fst (make_shared None heap_new)) (snd (make_shared None heap_new)) of
        Inr h \<Rightarrow> Some (cells h 0, git_freed h)
      | Inl e \<Rightarrow> None) = Some (None, [None])"
  by (simp add: make_shared_def free_shared_def heap_new_def)

section \<open>The lifetime of a referent\<close>

text \<open>
  C5 (amended). The claim: for every interleaving of duplications and releases of the
  handles of a referent, the referent is freed exactly once, by the release that takes
  the counter from 1 to 0, and never while a handle is left. The counter is a 32-bit
  integer and wraps around. Amended: a referent is opened and wrapped by
  \<^verbatim>\<open>make_shared\<close>; then its handles are duplicated (\<^verbatim>\<open>make_shared_copy\<close>), released
  (\<^verbatim>\<open>free_shared\<close>) and passed to the walker as the parent's handle of a child
  directory, in any order, each operation on a handle that still exists and fewer than
  \<open>2 ^ 32\<close> handles existing at any time (\<open>countable\<close>), the operations being atomic.
  Then all the operations return without a fault, and: as long as a handle is left, the counter holds the number of handles and the referent has
  not been passed to \<^verbatim>\<open>git_repository_free\<close>; once no handle is left, the counter is
  freed and the referent has been passed to \<^verbatim>\<open>git_repository_free\<close> exactly once, by
  the last operation, which is a release applied when exactly one handle was left.
\<close>

theorem referent_freed_with_last_handle:
  assumes "make_shared (Some g) h0 = (s, h)"
    and "live_after w opt 1 xs = Some m"
    and "countable w opt 1 xs"
  shows "\<exists>h1. run_ops w opt s xs h = Inr h1
            \<and> (if m = 0
               then cells h1 (next_cell h0) = None
                  \<and> count_list (git_freed h1) (Some g) = Suc (count_list (git_freed h0) (Some g))
                  \<and> xs \<noteq> [] \<and> last xs = Release \<and> live_after w opt 1 (butlast xs) = Some 1
               else cells h1 (next_cell h0) = Some (of_nat m)
                  \<and> count_list (git_freed h1) (Some g) = count_list (git_freed h0) (Some g))"
proof -
  from assms(1) have s: "refcnt s = Some (next_cell h0)" "ptr s = Some g"
    and h: "cells h (next_cell h0) = Some (of_nat 1)" "next_cell h0 < next_cell h"
      "git_freed h = git_freed h0"
    by (auto simp: make_shared_def)
  have b: "(0::nat) < 1" by simp
  from run_ops_counts [OF s h(1) b h(2) assms(2,3)] obtain h1 where
    r: "run_ops w opt s xs h = Inr h1"
    and c: "if m = 0
         then cells h1 (next_cell h0) = None
            \<and> count_list (git_freed h1) (Some g) = Suc (count_list (git_freed h) (Some g))
         else cells h1 (next_cell h0) = Some (of_nat m)
            \<and> count_list (git_freed h1) (Some g) = count_list (git_freed h) (Some g)"
    by blast
  show ?thesis
  proof (cases "m = 0")
    case True
    with assms(2) live_after_none_left [of w opt xs] c r h(3) show ?thesis
      by simp
  next
    case False
    with c r h(3) show ?thesis
      by simp
  qed
qed

text \<open>
  The theorem for a referent opened at \<open>a\<close>, in the small world with ignore rules on:
  a duplicate, a child \<open>a/x\<close> that is no repository and inherits the handle, and then
  three releases, after which the referent is freed once; after two of the releases it is
  not.
\<close>

theorem referent_freed_with_last_handle_witness:
  "(\<exists>h1. run_ops small_world (main_defaults False 1 raw_options)
            \<lparr>ptr = Some (0, ''a''), refcnt = Some 0\<rparr>
            [Duplicate, WalkChild ''a/x'', Release, Release, Release]
            (heap_new\<lparr>cells := (\<lambda>a. None)(0 \<mapsto> 1), next_cell := 1\<rparr>) = Inr h1
          \<and> cells h1 0 = None \<and> count_list (git_freed h1) (Some (0, ''a'')) = 1)
   \<and> (\<exists>h1. run_ops small_world (main_defaults False 1 raw_options)
            \<lparr>ptr = Some (0, ''a''), refcnt = Some 0\<rparr>
            [Duplicate, WalkChild ''a/x'', Release, Release]
            (heap_new\<lparr>cells := (\<lambda>a. None)(0 \<mapsto> 1), next_cell := 1\<rparr>) = Inr h1
          \<and> cells h1 0 = Some 1 \<and> count_list (git_freed h1) (Some (0, ''a'')) = 0)"
proof -
  have m: "make_shared (Some (0, ''a'')) heap_new
             = (\<lparr>ptr = Some (0, ''a''), refcnt = Some 0\<rparr>,
                heap_new\<lparr>cells := (\<lambda>a. None)(0 \<mapsto> 1), next_cell := 1\<rparr>)"
    by (simp add: make_shared_def heap_new_def)
  have l0: "live_after small_world (main_defaults False 1 raw_options) 1
              [Duplicate, WalkChild ''a/x'', Release, Release, Release] = Some 0"
    by (simp add: adds_handle_def main_defaults_def small_world_def)
  have k0: "countable small_world (main_defaults False 1 raw_options) 1
              [Duplicate, WalkChild ''a/x'', Release, Release, Release]"
    by (simp add: adds_handle_def main_defaults_def small_world_def)
  have l1: "live_after small_world (main_defaults False 1 raw_options) 1
              [Duplicate, WalkChild ''a/x'', Release, Release] = Some 1"
    by (simp add: adds_handle_def main_defaults_def small_world_def)
  have k1: "countable small_world (main_defaults False 1 raw_options) 1
              [Duplicate, WalkChild ''a/x'', Release, Release]"
    by (simp add: adds_handle_def main_defaults_def small_world_def)
  from referent_freed_with_last_handle [OF m l0 k0]
       referent_freed_with_last_handle [OF m l1 k1]
  show ?thesis
    by (auto simp del: run_ops.simps live_after.simps countable.simps simp add: heap_new_def)
qed

text \<open>
  C5 as stated fails when the counter wraps around: a handle is made for a referent,
  duplicated \<open>2 ^ 32\<close> times and released once. These are operations on handles that
  exist, and \<open>2 ^ 32\<close> handles are left after them. The counter is back at 1 before the
  release, so the release frees the counter and passes the referent to
  \<^verbatim>\<open>git_repository_free\<close>.
\<close>

theorem referent_freed_while_handles_remain:
  "live_after small_world (main_defaults False 1 raw_options) 1
     (replicate (2 ^ 32) Duplicate @ [Release]) = Some (2 ^ 32)
   \<and> (case run_ops small_world (main_defaults False 1 raw_options)
           (fst (make_shared (Some (0, ''a'')) heap_new))
           (replicate (2 ^ 32) Duplicate @ [Release])
           (snd (make_shared (Some (0, ''a'')) heap_new)) of
      Inr h \<Rightarrow> Some (cells h 0, git_freed h)
    | Inl e \<Rightarrow> None)
   = Some (None, [Some (0, ''a'')])"
proof -
  have z: "(1 :: 32 word) + of_nat (2 ^ 32) = 1"
    by simp
  have m: "make_shared (Some (0, ''a'')) heap_new
             = (\<lparr>ptr = Some (0, ''a''), refcnt = Some 0\<rparr>,
                heap_new\<lparr>cells := (\<lambda>a. None)(0 \<mapsto> 1), next_cell := 1\<rparr>)"
    by (simp add: make_shared_def heap_new_def)
  from duplicates_add [of "\<lparr>ptr = Some (0, ''a''), refcnt = Some 0\<rparr>" 0
      "heap_new\<lparr>cells := (\<lambda>a. None)(0 \<mapsto> 1), next_cell := 1\<rparr>" 1
      small_world "main_defaults False 1 raw_options" "2 ^ 32" "[Release]"]
  have r: "run_ops small_world (main_defaults False 1 raw_options)
             \<lparr>ptr = Some (0, ''a''), refcnt = Some 0\<rparr>
             (replicate (2 ^ 32) Duplicate @ [Release])
             (heap_new\<lparr>cells := (\<lambda>a. None)(0 \<mapsto> 1), next_cell := 1\<rparr>)
           = Inr (heap_new\<lparr>cells := (\<lambda>a. None), next_cell := 1,
                            git_freed := [Some (0, ''a'')]\<rparr>)"
    by (simp add: z apply_op_def free_shared_def bind_halt_Inr heap_new_def)
  have l: "live_after small_world (main_defaults False 1 raw_options) 1
             (replicate (2 ^ 32) Duplicate @ [Release]) = Some (2 ^ 32)"
    by (simp add: live_after_duplicates)
  show ?thesis
    unfolding m fst_conv snd_conv r l by simp
qed

section \<open>One release for every work item\<close>

text \<open>
  C10. A worker takes a message that is not the terminator from the queue; the matcher
  is set up as the parse leaves it, the names in the directory are not empty and the
  handle in the message is live. Then the walk returns, the turn of the loop returns and
  the loop goes on, and the history of the turn is: the dequeue, then what the walk did,
  in which there is no release, then exactly one release, which takes one from the
  counter of the flagman as the walk left it. When the walk returns at once, because the
  depth limit is reached or because the directory cannot be opened, the walk did nothing
  and the release is still there.
\<close>

theorem one_release_after_walk:
  assumes "matcher_set opt" "worker_tls opt = Inr t"
    and "names_ok (fs_dir w (str b))"
    and "queue_get (opt_q s) = Inr (Some b, q1)"
    and "handle_live (repo b) (mem s)"
  shows "\<exists>s1 s2 evs.
           walk w opt t (str b) (len b) (depth b) (repo b)
             (s\<lparr>opt_q := q1, events := events s @ [EvGet (Some (str b))]\<rparr>) = Inr s1
         \<and> events s1 = events s @ [EvGet (Some (str b))] @ evs
         \<and> EvRelease \<notin> set evs
         \<and> worker_iter w opt t s = Inr (True, s2)
         \<and> events s2 = events s1 @ [EvRelease]
         \<and> flagman_lock s2 = flagman_lock s1 - 1
         \<and> (max_depth opt > 0 \<and> depth b \<ge> max_depth opt \<or> fs_dir w (str b) = None
              \<longrightarrow> evs = [])"
proof -
  let ?s0 = "s\<lparr>opt_q := q1, events := events s @ [EvGet (Some (str b))]\<rparr>"
  from queue_get_ok [OF assms(4)] have q: "queue_ok (opt_q ?s0)" by simp
  from assms(5) have l: "handle_live (repo b) (mem ?s0)" by simp
  from walk_ok [OF q l assms(3,1,2), of "len b" "depth b"]
  obtain s1 where w: "walk w opt t (str b) (len b) (depth b) (repo b) ?s0 = Inr s1"
    and k: "walked (repo b) ?s0 s1"
    by (auto simp: returns_iff)
  from k obtain evs where e: "events s1 = events s @ [EvGet (Some (str b))] @ evs"
    "EvRelease \<notin> set evs" and l1: "handle_live (repo b) (mem s1)"
    by (auto simp: walked_def)
  from free_shared_live [OF l1] obtain h where
    f: "message_body_free b (mem (flagman_release s1)) = Inr h"
    by (auto simp: message_body_free_def flagman_release_def)
  have i: "worker_iter w opt t s = Inr (True, (flagman_release s1)\<lparr>mem := h\<rparr>)"
    by (simp add: worker_iter_def assms(4) bind_halt_Inr worker_item_def w f)
  have early: "evs = []"
    if "max_depth opt > 0 \<and> depth b \<ge> max_depth opt \<or> fs_dir w (str b) = None"
    using walk_early [OF that, of t "len b" "repo b" ?s0] w e by simp
  show ?thesis
    using w e i early
    by (intro exI [of _ s1] exI [of _ "(flagman_release s1)\<lparr>mem := h\<rparr>"] exI [of _ evs])
       (simp add: flagman_release_def)
qed

text \<open>
  The theorem at the root \<open>a\<close> of the small world, taken from a queue in which it is
  the only message.
\<close>

theorem one_release_after_walk_witness:
  "\<exists>s1 s2 evs.
     walk small_world (main_defaults False 1 raw_options)
       \<lparr>re = None, extra = None, glob_pattern = None, glob_flags = 0\<rparr> ''a'' 1 0
       \<lparr>ptr = None, refcnt = Some 0\<rparr>
       \<lparr>opt_q = \<lparr>q_length = 0, q_list = [], q_tail = None, q_alloc = 1\<rparr>,
        flagman_lock = 1,
        mem = heap_new\<lparr>cells := (\<lambda>a. None)(0 \<mapsto> 1), next_cell := 1\<rparr>,
        stdout = [], events = [EvAcquire, EvPutHead ''a'', EvGet (Some ''a'')]\<rparr> = Inr s1
   \<and> events s1 = [EvAcquire, EvPutHead ''a''] @ [EvGet (Some ''a'')] @ evs
   \<and> EvRelease \<notin> set evs
   \<and> worker_iter small_world (main_defaults False 1 raw_options)
       \<lparr>re = None, extra = None, glob_pattern = None, glob_flags = 0\<rparr>
       \<lparr>opt_q = \<lparr>q_length = 1,
                  q_list = [(0, \<lparr>priority = QUEUE_PRIORITY_MAX,
                                 msg = Some \<lparr>depth = 0, len = 1, str = ''a'',
                                             repo = \<lparr>ptr = None, refcnt = Some 0\<rparr>\<rparr>\<rparr>)],
                  q_tail = Some 0, q_alloc = 1\<rparr>,
        flagman_lock = 1,
        mem = heap_new\<lparr>cells := (\<lambda>a. None)(0 \<mapsto> 1), next_cell := 1\<rparr>,
        stdout = [], events = [EvAcquire, EvPutHead ''a'']\<rparr> = Inr (True, s2)
   \<and> events s2 = events s1 @ [EvRelease]
   \<and> flagman_lock s2 = flagman_lock s1 - 1"
proof -
  have m: "matcher_set (main_defaults False 1 raw_options)"
    by (simp add: matcher_set_def main_defaults_def)
  have t: "worker_tls (main_defaults False 1 raw_options)
             = Inr \<lparr>re = None, extra = None, glob_pattern = None, glob_flags = 0\<rparr>"
    by (simp add: worker_tls_def main_defaults_def)
  have n: "names_ok (fs_dir small_world
             (str \<lparr>depth = 0, len = 1, str = ''a'', repo = \<lparr>ptr = None, refcnt = Some 0\<rparr>\<rparr>))"
    by (simp add: names_ok_def small_world_def dots_def)
  have g: "queue_get (opt_q
       \<lparr>opt_q = \<lparr>q_length = 1,
                  q_list = [(0, \<lparr>priority = QUEUE_PRIORITY_MAX,
                                 msg = Some \<lparr>depth = 0, len = 1, str = ''a'',
                                             repo = \<lparr>ptr = None, refcnt = Some 0\<rparr>\<rparr>\<rparr>)],
                  q_tail = Some 0, q_alloc = 1\<rparr>,
        flagman_lock = 1,
        mem = heap_new\<lparr>cells := (\<lambda>a. None)(0 \<mapsto> 1), next_cell := 1\<rparr>,
        stdout = [], events = [EvAcquire, EvPutHead ''a'']\<rparr>)
     = Inr (Some \<lparr>depth = 0, len = 1, str = ''a'', repo = \<lparr>ptr = None, refcnt = Some 0\<rparr>\<rparr>,
            \<lparr>q_length = 0, q_list = [], q_tail = None, q_alloc = 1\<rparr>)"
    by (simp add: queue_get_def)
  have l: "handle_live
      (repo \<lparr>depth = 0, len = 1, str = ''a'', repo = \<lparr>ptr = None, refcnt = Some 0\<rparr>\<rparr>)
      (mem \<lparr>opt_q = \<lparr>q_length = 1,
                  q_list = [(0, \<lparr>priority = QUEUE_PRIORITY_MAX,
                                 msg = Some \<lparr>depth = 0, len = 1, str = ''a'',
                                             repo = \<lparr>ptr = None, refcnt = Some 0\<rparr>\<rparr>\<rparr>)],
                  q_tail = Some 0, q_alloc = 1\<rparr>,
        flagman_lock = 1,
        mem = heap_new\<lparr>cells := (\<lambda>a. None)(0 \<mapsto> 1), next_cell := 1\<rparr>,
        stdout = [], events = [EvAcquire, EvPutHead ''a'']\<rparr>)"
    by (simp add: handle_live_def heap_new_def)
  from one_release_after_walk [OF m t n g l] show ?thesis
    by simp blast
qed

section \<open>Runs with two roots\<close>

text \<open>
  C1 (the code does not do what the claim says). The claim: the counter of the flagman
  never becomes negative, every release is matched by an earlier acquire of its own, and
  every \<^verbatim>\<open>queue_put_head\<close> of a root is preceded by one acquire. The code, for
  \<^verbatim>\<open>ff -j 1 "" a b\<close> in the small world: \<^verbatim>\<open>main\<close> acquires once and puts both
  roots; the worker handles \<open>b\<close>, then \<open>a\<close>, which queues \<open>a/x\<close> after an acquire,
  then \<open>a/x\<close>, and releases after each. The history has two acquires and three
  releases, and the counter ends at -1.
\<close>

theorem flagman_negative_with_two_roots:
  "(case main small_world False 1 raw_options [(CHR ''j'', Some ''1'')] ['''', ''a'', ''b'']
          [MainThread, MainThread, WorkerThread 0, WorkerThread 0, WorkerThread 0] of
      Inr (Ran opt y) \<Rightarrow> Some (flagman_lock (shared y), events (shared y))
    | _ \<Rightarrow> None)
   = Some (- 1,
       [EvAcquire, EvPutHead ''a'', EvPutHead ''b'',
        EvGet (Some ''b''), EvRelease,
        EvGet (Some ''a''), EvAcquire, EvPut ''a/x'' 1, EvRelease,
        EvGet (Some ''a/x''), EvRelease])"
  by (simp add: engine_defs world_defs bind_halt_Inl bind_halt_Inr Let_def
      cong: bind_halt_weak_cong let_weak_cong)

text \<open>
  C3 (the code does not do what the claim says). The claim: no worker dequeues a
  terminator while a work item is still in the queue. The code, for the same command
  line under another schedule: after the worker has handled \<open>b\<close> the counter is zero
  although \<open>a\<close> is still queued, so \<^verbatim>\<open>flagman_wait\<close> returns and \<^verbatim>\<open>main\<close> appends
  the terminator; the worker handles \<open>a\<close>, and \<^verbatim>\<open>queue_put\<close> links \<open>a/x\<close> behind the
  terminator; the worker then dequeues the terminator and leaves its loop while \<open>a/x\<close>
  is in the queue.
\<close>

theorem terminator_overtakes_work:
  "(case main small_world False 1 raw_options [(CHR ''j'', Some ''1'')] ['''', ''a'', ''b'']
          [MainThread, MainThread, WorkerThread 0, MainThread, MainThread,
           WorkerThread 0, WorkerThread 0] of
      Inr (Ran opt y) \<Rightarrow>
        Some (events (shared y), running y,
              map (\<lambda>(a, n). map_option str (msg n)) (q_list (opt_q (shared y))))
    | _ \<Rightarrow> None)
   = Some ([EvAcquire, EvPutHead ''a'', EvPutHead ''b'',
            EvGet (Some ''b''), EvRelease,
            EvWait, EvPutTail,
            EvGet (Some ''a''), EvAcquire, EvPut ''a/x'' 1, EvRelease,
            EvGet None],
           [False],
           [Some ''a/x''])"
  by (simp add: engine_defs world_defs bind_halt_Inl bind_halt_Inr Let_def
      cong: bind_halt_weak_cong let_weak_cong)

text \<open>
  C4 (the code does not do what the claim says). The claim: every entry that can be
  reached from a root and passes the filters is emitted exactly once. The code, for the
  same command line and the schedule above, continued until \<^verbatim>\<open>main\<close> has joined the
  worker and returned 0: the output is the one line \<open>a/x\<close>. The file \<open>a/x/f\<close> is at
  depth 2 below the root \<open>a\<close>, no depth limit is set, the name is not hidden, nothing
  is ignored, the mode is \<open>NONE\<close> and no type filter is set; it is never emitted.
\<close>

theorem entry_never_emitted:
  "(case main small_world False 1 raw_options [(CHR ''j'', Some ''1'')] ['''', ''a'', ''b'']
          [MainThread, MainThread, WorkerThread 0, MainThread, MainThread,
           WorkerThread 0, WorkerThread 0, MainThread] of
      Inr (Ran opt y) \<Rightarrow> Some (main_at y, running y, stdout (shared y))
    | _ \<Rightarrow> None)
   = Some (Returned 0, [False], [''a/x''])"
  by (simp add: engine_defs world_defs bind_halt_Inl bind_halt_Inr Let_def
      cong: bind_halt_weak_cong let_weak_cong)

end
